(* ===== verification/Prelude.thy ===== *)
theory Prelude
  imports Main "HOL-Library.Word" "HOL-Library.Multiset" "HOL-Library.AList"
begin

text \<open>
  The shared base of the development: the machine integer types, the few functions of
  Rust's standard library the server calls on them (saturating addition, decimal
  formatting, the scan of an integer range), and a reordering function that stands for
  the unspecified iteration order of a hash table.  The fact collections every component
  theory adds to are declared here.
\<close>

named_theorems hm_simps \<open>how the hash table operations act on lookup and size\<close>

type_synonym byte = "8 word"
type_synonym u8 = "8 word"
type_synonym u32 = "32 word"
type_synonym u64 = "64 word"

section \<open>Machine integers\<close>

text \<open>\<open>saturating_add\<close> of an unsigned integer: the largest value instead of a wrap.\<close>

definition saturating_add :: "'a::len word \<Rightarrow> 'a word \<Rightarrow> 'a word" where
  "saturating_add a b = (if unat a + unat b < 2 ^ LENGTH('a) then a + b else - 1)"

lemma unat_saturating_add:
  "unat (saturating_add a (b :: 'a::len word)) = min (unat a + unat b) (2 ^ LENGTH('a) - 1)"
  by (auto simp: saturating_add_def unat_word_ariths unsigned_minus_1_eq_mask mask_eq_exp_minus_1)

lemma saturating_add_ge: "unat a \<le> unat (saturating_add a (b :: 'a::len word))"
proof -
  have "Suc (unat a) \<le> 2 ^ LENGTH('a)" by (rule Suc_leI) (rule unsigned_less)
  then have "unat a \<le> 2 ^ LENGTH('a) - 1" by linarith
  then show ?thesis by (simp add: unat_saturating_add)
qed

lemma saturating_add_1_neq_0 [simp]: "saturating_add (a :: u32) 1 \<noteq> 0"
proof -
  have "unat (saturating_add a 1) \<noteq> 0" by (simp add: unat_saturating_add)
  then show ?thesis by auto
qed

lemma word_of_nat_neq_0: "0 < n \<Longrightarrow> n < 4294967296 \<Longrightarrow> (word_of_nat n :: u32) \<noteq> 0"
  by (auto simp: word_of_nat_eq_0_iff nat_dvd_not_less)

lemma unat_u32_lt: "unat (w :: u32) < 4294967296"
  using unsigned_less [of w] by simp

lemma unat_byte_lt: "unat (b :: byte) < 256"
  using unsigned_less [of b] by simp

text \<open>Decimal formatting, as \<open>format!("{}", n)\<close> prints an unsigned integer.\<close>

definition digit_char :: "nat \<Rightarrow> char" where
  "digit_char d = char_of (48 + d)"

fun dec_string :: "nat \<Rightarrow> string" where
  "dec_string n = (if n < 10 then [digit_char n] else dec_string (n div 10) @ [digit_char (n mod 10)])"

declare dec_string.simps [simp del]

lemma dec_string_neq_Nil [simp]: "dec_string n \<noteq> []"
  by (subst dec_string.simps) simp

lemma Nil_neq_dec_string [simp]: "[] \<noteq> dec_string n"
  by (metis dec_string_neq_Nil)

lemma digit_char_inject: "a < 10 \<Longrightarrow> b < 10 \<Longrightarrow> digit_char a = digit_char b \<longleftrightarrow> a = b"
proof -
  assume "a < 10" "b < 10"
  then have "of_char (digit_char a) = 48 + a" "of_char (digit_char b) = 48 + b"
    by (simp_all add: digit_char_def)
  then show ?thesis by (metis add_left_cancel)
qed

lemma dec_string_inject [simp]: "dec_string m = dec_string n \<longleftrightarrow> m = n"
proof (induction m arbitrary: n rule: dec_string.induct)
  case (1 m)
  show ?case
  proof (cases "m < 10")
    case True
    then show ?thesis
      by (subst dec_string.simps, subst (2) dec_string.simps) (auto simp: digit_char_inject)
  next
    case False
    with 1 have IH: "dec_string (m div 10) = dec_string (n div 10) \<longleftrightarrow> m div 10 = n div 10" by simp
    show ?thesis
    proof (cases "n < 10")
      case True
      with False show ?thesis by (subst dec_string.simps, subst (2) dec_string.simps) auto
    next
      case n: False
      have "m div 10 = n div 10 \<and> m mod 10 = n mod 10 \<longleftrightarrow> m = n" by (metis div_mult_mod_eq)
      with False n IH show ?thesis
        by (subst dec_string.simps, subst (2) dec_string.simps) (auto simp: digit_char_inject)
    qed
  qed
qed

section \<open>Scanning an integer range\<close>

text \<open>\<open>for c in lo..hi { if p(c) { return Some(c) } }\<close>.\<close>

function first_in_range :: "(nat \<Rightarrow> bool) \<Rightarrow> nat \<Rightarrow> nat \<Rightarrow> nat option" where
  "first_in_range p lo hi =
     (if lo < hi then (if p lo then Some lo else first_in_range p (Suc lo) hi) else None)"
  by pat_completeness auto
termination
  by (relation "measure (\<lambda>(p, lo, hi). hi - lo)") auto

declare first_in_range.simps [simp del]

lemma first_in_range_find: "first_in_range p lo hi = find p [lo..<hi]"
proof (induction p lo hi rule: first_in_range.induct)
  case (1 p lo hi)
  then show ?case
    by (cases "lo < hi") (simp_all add: first_in_range.simps [of p lo hi] upt_conv_Cons)
qed

lemma first_in_range_SomeD:
  "first_in_range p lo hi = Some c \<Longrightarrow> lo \<le> c \<and> c < hi \<and> p c \<and> (\<forall>d. lo \<le> d \<and> d < c \<longrightarrow> \<not> p d)"
proof (induction p lo hi rule: first_in_range.induct)
  case (1 p lo hi)
  from "1.prems" have lt: "lo < hi" by (simp add: first_in_range.simps [of p lo hi] split: if_splits)
  show ?case
  proof (cases "p lo")
    case True
    with "1.prems" lt show ?thesis by (auto simp: first_in_range.simps [of p lo hi])
  next
    case False
    with "1.prems" lt have "first_in_range p (Suc lo) hi = Some c"
      by (simp add: first_in_range.simps [of p lo hi])
    with "1.IH" lt False have "Suc lo \<le> c \<and> c < hi \<and> p c \<and> (\<forall>d. Suc lo \<le> d \<and> d < c \<longrightarrow> \<not> p d)"
      by blast
    with False show ?thesis by (metis Suc_leD Suc_leI le_neq_implies_less)
  qed
qed

lemma first_in_range_None: "first_in_range p lo hi = None \<longleftrightarrow> (\<forall>c. lo \<le> c \<and> c < hi \<longrightarrow> \<not> p c)"
  by (auto simp: first_in_range_find find_None_iff)

section \<open>Reordering a list\<close>

text \<open>
  \<open>reorder cs xs\<close> picks the elements of \<open>xs\<close> one by one: each number of \<open>cs\<close> is the
  (wrapped) position of the next pick, and what is left once \<open>cs\<close> is used up follows.
  Every permutation of \<open>xs\<close> is a \<open>reorder cs xs\<close>, and every \<open>reorder cs xs\<close> is a
  permutation: a function into \<open>nat list\<close> is an arbitrary iteration order.
\<close>

fun reorder :: "nat list \<Rightarrow> 'a list \<Rightarrow> 'a list" where
  "reorder [] xs = xs"
| "reorder (c # cs) [] = []"
| "reorder (c # cs) (x # xs) =
     (let ys = x # xs; i = c mod length ys
      in ys ! i # reorder cs (take i ys @ drop (Suc i) ys))"

lemma mset_reorder [simp]: "mset (reorder cs xs) = mset xs"
proof (induction cs xs rule: reorder.induct)
  case (3 c cs x xs)
  let ?ys = "x # xs" and ?i = "c mod length (x # xs)"
  have i: "?i < length ?ys" by simp
  have "mset (reorder (c # cs) ?ys) = add_mset (?ys ! ?i) (mset (take ?i ?ys @ drop (Suc ?i) ?ys))"
    using 3 [of ?ys ?i] by (simp only: reorder.simps Let_def mset.simps)
  also have "\<dots> = mset (take ?i ?ys @ ?ys ! ?i # drop (Suc ?i) ?ys)" by simp
  also have "\<dots> = mset ?ys" using i by (metis id_take_nth_drop)
  finally show ?case .
qed simp_all

lemma set_reorder [simp]: "set (reorder cs xs) = set xs"
  by (metis mset_reorder set_mset_mset)

lemma length_reorder [simp]: "length (reorder cs xs) = length xs"
  by (metis mset_reorder size_mset)

lemma distinct_map_reorder [simp]: "distinct (map f (reorder cs xs)) = distinct (map f xs)"
  by (metis mset_reorder mset_map mset_eq_imp_distinct_iff)

lemma reorder_complete: "mset ys = mset xs \<Longrightarrow> \<exists>cs. reorder cs xs = ys"
proof (induction ys arbitrary: xs)
  case Nil
  then show ?case by (intro exI [of _ "[]"]) simp
next
  case (Cons y ys)
  then have "y \<in> set xs" by (metis list.set_intros(1) set_mset_mset)
  then obtain i where i: "i < length xs" "xs ! i = y" by (metis in_set_conv_nth)
  then obtain z zs where xs: "xs = z # zs" by (cases xs) auto
  have "mset xs = add_mset y (mset (take i xs @ drop (Suc i) xs))"
    using i by (metis id_take_nth_drop mset.simps(2) mset_append union_mset_add_mset_right)
  with Cons.prems have "mset ys = mset (take i xs @ drop (Suc i) xs)" by simp
  then obtain cs where "reorder cs (take i xs @ drop (Suc i) xs) = ys" using Cons.IH by blast
  with i xs have "reorder (i # cs) xs = y # ys" by (simp add: Let_def)
  then show ?case ..
qed

end
