(* ===== verification/Hash_Map.thy ===== *)
theory Hash_Map
  imports Prelude
begin

text \<open>
  Rust's \<open>std::collections::HashMap\<close>, as far as the server uses it.  A table is the list of
  its entries in the order in which \<open>iter()\<close> visits them, together with its
  \<open>RandomState\<close>, which decides that order: when a new key is inserted the entries may come
  out in any order, a removal keeps the order of the others.  The contract the rooms rely
  on is the locale \<open>map_api\<close>, interpreted at the end on these operations.
\<close>

record ('k, 'v) hash_map =
  hash_builder :: "'k list \<Rightarrow> nat list"
  table :: "('k \<times> 'v) list"

definition hm_new :: "('k list \<Rightarrow> nat list) \<Rightarrow> ('k, 'v) hash_map" where
  "hm_new h = \<lparr>hash_builder = h, table = []\<rparr>"

definition hm_get :: "('k, 'v) hash_map \<Rightarrow> 'k \<Rightarrow> 'v option" where
  "hm_get m k = map_of (table m) k"

definition hm_contains_key :: "('k, 'v) hash_map \<Rightarrow> 'k \<Rightarrow> bool" where
  "hm_contains_key m k = (hm_get m k \<noteq> None)"

definition hm_keys :: "('k, 'v) hash_map \<Rightarrow> 'k list" where
  "hm_keys m = map fst (table m)"

definition hm_values :: "('k, 'v) hash_map \<Rightarrow> 'v list" where
  "hm_values m = map snd (table m)"

definition hm_len :: "('k, 'v) hash_map \<Rightarrow> nat" where
  "hm_len m = length (table m)"

definition hm_is_empty :: "('k, 'v) hash_map \<Rightarrow> bool" where
  "hm_is_empty m = (table m = [])"

text \<open>\<open>keys().next().copied()\<close>: the first key of the iteration order.\<close>

definition hm_first_key :: "('k, 'v) hash_map \<Rightarrow> 'k option" where
  "hm_first_key m = (case table m of [] \<Rightarrow> None | (k, _) # _ \<Rightarrow> Some k)"

definition hm_insert :: "'k \<Rightarrow> 'v \<Rightarrow> ('k, 'v) hash_map \<Rightarrow> ('k, 'v) hash_map" where
  "hm_insert k v m =
     (if hm_contains_key m k then m\<lparr>table := AList.update k v (table m)\<rparr>
      else m\<lparr>table := reorder (hash_builder m (k # hm_keys m)) ((k, v) # table m)\<rparr>)"

definition hm_remove :: "'k \<Rightarrow> ('k, 'v) hash_map \<Rightarrow> ('k, 'v) hash_map" where
  "hm_remove k m = m\<lparr>table := AList.delete k (table m)\<rparr>"

text \<open>A table has at most one entry for a key.\<close>

definition hm_ok :: "('k, 'v) hash_map \<Rightarrow> bool" where
  "hm_ok m = distinct (hm_keys m)"

section \<open>Lookup, size and keys after each operation\<close>

lemma hm_ok_new [simp, intro]: "hm_ok (hm_new h)"
  by (simp add: hm_ok_def hm_keys_def hm_new_def)

lemma hm_get_new [hm_simps, simp]: "hm_get (hm_new h) = Map.empty"
  by (simp add: fun_eq_iff hm_get_def hm_new_def)

lemma hm_len_new [hm_simps, simp]: "hm_len (hm_new h) = 0"
  by (simp add: hm_len_def hm_new_def)

lemma hm_get_insert [hm_simps]:
  assumes "hm_ok m"
  shows "hm_get (hm_insert k v m) = (hm_get m)(k \<mapsto> v)"
proof (cases "hm_contains_key m k")
  case True
  then show ?thesis by (simp add: fun_eq_iff hm_get_def hm_insert_def update_conv)
next
  case False
  then have "k \<notin> fst ` set (table m)"
    by (simp add: hm_contains_key_def hm_get_def map_of_eq_None_iff)
  with assms have d: "distinct (map fst ((k, v) # table m))"
    by (simp add: hm_ok_def hm_keys_def)
  let ?t = "reorder (hash_builder m (k # hm_keys m)) ((k, v) # table m)"
  have dt: "distinct (map fst ?t)"
    using d by (simp only: distinct_map_reorder)
  have "map_of ?t = map_of ((k, v) # table m)"
    using map_of_inject_set [OF dt d] by (simp del: map_of.simps)
  with False show ?thesis by (simp add: fun_eq_iff hm_get_def hm_insert_def)
qed

lemma hm_ok_insert [intro, simp]: "hm_ok m \<Longrightarrow> hm_ok (hm_insert k v m)"
proof (cases "hm_contains_key m k")
  case True
  moreover assume "hm_ok m"
  ultimately show ?thesis
    by (simp add: hm_insert_def hm_ok_def hm_keys_def distinct_update)
next
  case False
  moreover assume "hm_ok m"
  ultimately show ?thesis
    by (simp add: hm_insert_def hm_ok_def hm_keys_def hm_contains_key_def hm_get_def
        map_of_eq_None_iff)
qed

lemma hm_get_remove [hm_simps, simp]: "hm_get (hm_remove k m) = (hm_get m)(k := None)"
  by (simp add: fun_eq_iff hm_get_def hm_remove_def delete_conv)

lemma hm_ok_remove [intro, simp]: "hm_ok m \<Longrightarrow> hm_ok (hm_remove k m)"
  by (simp add: hm_ok_def hm_keys_def hm_remove_def distinct_delete)

lemma set_hm_keys [hm_simps]: "set (hm_keys m) = dom (hm_get m)"
  by (simp add: hm_keys_def hm_get_def [abs_def] dom_map_of_conv_image_fst)

lemma hm_contains_key_dom [hm_simps, simp]: "hm_contains_key m k \<longleftrightarrow> k \<in> dom (hm_get m)"
  by (auto simp: hm_contains_key_def)

lemma hm_is_empty_dom [hm_simps]: "hm_is_empty m \<longleftrightarrow> dom (hm_get m) = {}"
  by (metis hm_is_empty_def hm_keys_def set_hm_keys map_is_Nil_conv set_empty)

lemma hm_first_key_SomeD: "hm_first_key m = Some k \<Longrightarrow> k \<in> dom (hm_get m)"
  by (auto simp: hm_first_key_def hm_get_def split: list.splits)

lemma hm_first_key_None: "hm_first_key m = None \<longleftrightarrow> dom (hm_get m) = {}"
  using hm_is_empty_dom [of m]
  by (auto simp: hm_first_key_def hm_is_empty_def simp del: dom_eq_empty_conv split: list.splits)

lemma hm_len_card: "hm_ok m \<Longrightarrow> hm_len m = card (dom (hm_get m))"
  by (metis hm_keys_def hm_len_def hm_ok_def distinct_card length_map set_hm_keys)

lemma finite_dom_hm_get [simp]: "finite (dom (hm_get m))"
  by (metis List.finite_set set_hm_keys)

lemma ran_hm_get: "hm_ok m \<Longrightarrow> set (hm_values m) = ran (hm_get m)"
  by (force simp: hm_values_def hm_get_def ran_def hm_ok_def hm_keys_def)

lemma hm_entries: "hm_ok m \<Longrightarrow> (k, v) \<in> set (table m) \<longleftrightarrow> hm_get m k = Some v"
  by (simp add: hm_get_def hm_ok_def hm_keys_def)

lemma hm_len_remove_le: "hm_len (hm_remove k m) \<le> hm_len m"
  by (simp add: hm_len_def hm_remove_def length_delete_le)

section \<open>The contract\<close>

locale map_api =
  fixes new_map :: "'m"
    and get :: "'m \<Rightarrow> 'k \<Rightarrow> 'v option"
    and insert_key :: "'k \<Rightarrow> 'v \<Rightarrow> 'm \<Rightarrow> 'm"
    and remove_key :: "'k \<Rightarrow> 'm \<Rightarrow> 'm"
    and keys :: "'m \<Rightarrow> 'k list"
    and ok :: "'m \<Rightarrow> bool"
  assumes get_new: "get new_map = Map.empty"
    and get_insert: "ok m \<Longrightarrow> get (insert_key k v m) = (get m)(k \<mapsto> v)"
    and get_remove: "ok m \<Longrightarrow> get (remove_key k m) = (get m)(k := None)"
    and set_keys: "ok m \<Longrightarrow> set (keys m) = dom (get m)"
    and distinct_keys: "ok m \<Longrightarrow> distinct (keys m)"
    and ok_new: "ok new_map"
    and ok_insert: "ok m \<Longrightarrow> ok (insert_key k v m)"
    and ok_remove: "ok m \<Longrightarrow> ok (remove_key k m)"
begin

lemma length_keys: "ok m \<Longrightarrow> length (keys m) = card (dom (get m))"
  by (metis distinct_card distinct_keys set_keys)

lemma length_keys_insert:
  assumes "ok m" and "k \<notin> dom (get m)"
  shows "length (keys (insert_key k v m)) = Suc (length (keys m))"
proof -
  have "finite (dom (get m))" using assms(1) by (metis List.finite_set set_keys)
  with assms show ?thesis by (simp add: length_keys ok_insert get_insert)
qed

lemma length_keys_remove:
  assumes "ok m" and "k \<in> dom (get m)"
  shows "Suc (length (keys (remove_key k m))) = length (keys m)"
proof -
  have "finite (dom (get m))" using assms(1) by (metis List.finite_set set_keys)
  with assms have "Suc (card (dom (get m) - {k})) = card (dom (get m))"
    by (intro card_Suc_Diff1) auto
  with assms(1) show ?thesis by (simp add: length_keys ok_remove get_remove)
qed

lemma ok_fold_remove: "ok m \<Longrightarrow> ok (fold remove_key ks m)"
  by (induction ks arbitrary: m) (auto intro: ok_remove)

lemma get_fold_remove: "ok m \<Longrightarrow> get (fold remove_key ks m) = get m |` (- set ks)"
proof (induction ks arbitrary: m)
  case (Cons k ks)
  then have "get (fold remove_key (k # ks) m) = get (remove_key k m) |` (- set ks)"
    by (simp add: ok_remove)
  also have "\<dots> = get m |` (- set (k # ks))"
    using Cons.prems by (auto simp: get_remove restrict_map_def fun_eq_iff)
  finally show ?case .
qed (simp add: restrict_map_def)

lemma insert_then_remove: "ok m \<Longrightarrow> get m k = None \<Longrightarrow> get (remove_key k (insert_key k v m)) = get m"
  by (auto simp: get_insert get_remove ok_insert)

end

interpretation hm: map_api "hm_new h" hm_get hm_insert hm_remove hm_keys hm_ok
  by unfold_locales (auto simp: hm_simps hm_ok_def [symmetric])

lemma hm_len_keys: "hm_len m = length (hm_keys m)"
  by (simp add: hm_len_def hm_keys_def)

end
