(* ===== verification/Messages.thy ===== *)
theory Messages
  imports Hash_Map
begin

text \<open>
  The wire types of \<open>protocol/messages.rs\<close>, with the room code, client hash and room
  settings of \<open>room/room.rs\<close> and \<open>room/identity.rs\<close> they mention.  A Rust \<open>String\<close> is
  its list of UTF-8 bytes (\<open>char list\<close>), so \<open>length\<close> is \<open>len()\<close>; a byte blob is a
  \<open>byte list\<close>.  \<open>serde_json::Value\<close> is opaque to the server and stays an opaque type.
\<close>

section \<open>Values the messages carry\<close>

typedecl json_value

instantiation json_value :: equal
begin

definition equal_json_value :: "json_value \<Rightarrow> json_value \<Rightarrow> bool" where
  "equal_json_value x y \<longleftrightarrow> x = y"

instance
  by standard (simp add: equal_json_value_def)

end

type_synonym peer_id = u32

datatype client_hash = ClientHash (hash_str: string)

datatype room_code = RoomCode (code_str: string)

record room_settings =
  max_players :: u32
  min_players :: u32
  is_public :: bool
  password :: "string option"
  accept_required :: bool
  custom :: "json_value option"

text \<open>\<open>#[derive(Default)]\<close> on the settings.\<close>

definition default_settings :: room_settings where
  "default_settings = \<lparr>max_players = 0, min_players = 0, is_public = False, password = None,
     accept_required = False, custom = None\<rparr>"

section \<open>Client to server\<close>

datatype room_control =
    CreateRoom room_settings
  | UpdateSettings room_settings
  | SetPublic bool
  | AcceptPeer peer_id
  | DenyPeer peer_id
  | Kick peer_id
  | Ban peer_id
  | TransferHost peer_id
  | Leave

text \<open>The arguments of \<open>Hello\<close>: app key, room code, client hash, display name, auth token, password.\<close>

datatype client_message =
    Hello string room_code string "string option" "string option" "string option"
  | Move "byte list"
  | Input "byte list"
  | RoomControl room_control
  | RequestState
  | Ping
  | ListRooms string

section \<open>Server to client\<close>

record room_list_entry =
  rle_room_code :: room_code
  rle_player_count :: u32
  rle_settings :: room_settings

datatype room_event =
    HostTransferred peer_id
  | Kicked
  | Banned
  | SettingsChanged room_settings

text \<open>
  The arguments of \<open>Joined\<close>: room code, peer id, host peer id, side, settings, initial
  state; of \<open>PeerJoined\<close>: peer id, client hash, display name.
\<close>

datatype server_message =
    Joined room_code peer_id peer_id u8 room_settings "byte list option"
  | RoomList "room_list_entry list"
  | PeerJoined peer_id string "string option"
  | PeerLeft peer_id
  | PeerInput peer_id "byte list"
  | StateUpdate "byte list"
  | MoveAccepted
  | MoveRejected string
  | RoomEvent room_event
  | Pong
  | Error string

text \<open>The room settings a message shows to its receiver.\<close>

fun shown_settings :: "server_message \<Rightarrow> room_settings list" where
  "shown_settings (Joined _ _ _ _ st _) = [st]"
| "shown_settings (RoomList es) = map rle_settings es"
| "shown_settings (RoomEvent (SettingsChanged st)) = [st]"
| "shown_settings _ = []"

text \<open>A message that shows no room password.\<close>

definition no_password :: "server_message \<Rightarrow> bool" where
  "no_password m = (\<forall>st \<in> set (shown_settings m). password st = None)"

section \<open>The room code of an incoming Hello\<close>

definition is_ascii_alphanumeric :: "char \<Rightarrow> bool" where
  "is_ascii_alphanumeric c =
     (let n = (of_char c :: nat)
      in (48 \<le> n \<and> n \<le> 57) \<or> (65 \<le> n \<and> n \<le> 90) \<or> (97 \<le> n \<and> n \<le> 122))"

text \<open>
  \<open>str::trim\<close> on the UTF-8 bytes: the byte sequences of the characters with the Unicode
  property White_Space, one, two or three bytes long.
\<close>

definition is_white_space :: "string \<Rightarrow> bool" where
  "is_white_space s =
     (case map (of_char :: char \<Rightarrow> nat) s of
        [a] \<Rightarrow> (9 \<le> a \<and> a \<le> 13) \<or> a = 32
      | [a, b] \<Rightarrow> a = 194 \<and> (b = 133 \<or> b = 160)
      | [a, b, c] \<Rightarrow>
          (a = 225 \<and> b = 154 \<and> c = 128)
          \<or> (a = 226 \<and> b = 128 \<and> ((128 \<le> c \<and> c \<le> 138) \<or> c = 168 \<or> c = 169 \<or> c = 175))
          \<or> (a = 226 \<and> b = 129 \<and> c = 159)
          \<or> (a = 227 \<and> b = 128 \<and> c = 128)
      | _ \<Rightarrow> False)"

lemma not_white_space_Nil [simp]: "\<not> is_white_space []"
  by (simp add: is_white_space_def)

lemma white_space_take: "is_white_space (take n s) \<Longrightarrow> length (drop n s) < length s"
  by (cases "s = [] \<or> n = 0") auto

lemma white_space_drop: "is_white_space (drop n s) \<Longrightarrow> length (take n s) < length s"
  by (cases "n < length s") auto

function trim_start :: "string \<Rightarrow> string" where
  "trim_start s =
     (if is_white_space (take 1 s) then trim_start (drop 1 s)
      else if is_white_space (take 2 s) then trim_start (drop 2 s)
      else if is_white_space (take 3 s) then trim_start (drop 3 s)
      else s)"
  by pat_completeness auto
termination
  by (relation "measure length") (simp_all only: in_measure white_space_take wf_measure)

declare trim_start.simps [simp del]

function trim_end :: "string \<Rightarrow> string" where
  "trim_end s =
     (let n = length s
      in if is_white_space (drop (n - 1) s) then trim_end (take (n - 1) s)
         else if is_white_space (drop (n - 2) s) then trim_end (take (n - 2) s)
         else if is_white_space (drop (n - 3) s) then trim_end (take (n - 3) s)
         else s)"
  by pat_completeness auto
termination
  by (relation "measure length") (simp_all only: in_measure white_space_drop wf_measure)

declare trim_end.simps [simp del]

definition trim :: "string \<Rightarrow> string" where
  "trim s = trim_end (trim_start s)"

definition deserialize_room_code :: "string \<Rightarrow> room_code" where
  "deserialize_room_code s = RoomCode (filter is_ascii_alphanumeric (trim s))"

text \<open>\<open>Serialize\<close> and \<open>Display\<close> give the string as it is, in its own case.\<close>

definition serialize_room_code :: "room_code \<Rightarrow> string" where
  "serialize_room_code c = code_str c"

text \<open>
  Trimming first makes no difference: no byte of a white space character is an ASCII letter
  or digit.
\<close>

lemma white_space_filter: "is_white_space s \<Longrightarrow> filter is_ascii_alphanumeric s = []"
  by (auto simp: is_white_space_def is_ascii_alphanumeric_def Let_def split: list.splits)

lemma filter_alnum_take_drop:
  assumes "is_white_space (take n s)"
  shows "filter is_ascii_alphanumeric (drop n s) = filter is_ascii_alphanumeric s"
proof -
  have "filter is_ascii_alphanumeric (take n s @ drop n s) = filter is_ascii_alphanumeric (drop n s)"
    unfolding filter_append using white_space_filter [OF assms] by simp
  then show ?thesis by (simp only: append_take_drop_id)
qed

lemma filter_alnum_drop_take:
  assumes "is_white_space (drop n s)"
  shows "filter is_ascii_alphanumeric (take n s) = filter is_ascii_alphanumeric s"
proof -
  have "filter is_ascii_alphanumeric (take n s @ drop n s) = filter is_ascii_alphanumeric (take n s)"
    unfolding filter_append using white_space_filter [OF assms] by simp
  then show ?thesis by (simp only: append_take_drop_id)
qed

lemma filter_trim_start: "filter is_ascii_alphanumeric (trim_start s) = filter is_ascii_alphanumeric s"
proof (induction s rule: trim_start.induct)
  case (1 s)
  then show ?case by (subst trim_start.simps) (simp add: filter_alnum_take_drop)
qed

lemma filter_trim_end: "filter is_ascii_alphanumeric (trim_end s) = filter is_ascii_alphanumeric s"
proof (induction s rule: trim_end.induct)
  case (1 s)
  then show ?case by (subst trim_end.simps) (simp add: Let_def filter_alnum_drop_take)
qed

lemma filter_trim [simp]: "filter is_ascii_alphanumeric (trim s) = filter is_ascii_alphanumeric s"
  by (simp add: trim_def filter_trim_start filter_trim_end)

text \<open>A code that was read once is written and read back unchanged.\<close>

lemma room_code_roundtrip:
  "deserialize_room_code (serialize_room_code (deserialize_room_code s)) = deserialize_room_code s"
  by (simp add: deserialize_room_code_def serialize_room_code_def)

text \<open>
  \<open>bincode\<close> reads a Hello with the room code as the string on the wire; the code's own
  \<open>Deserialize\<close> then normalises it.
\<close>

fun normalise_message :: "client_message \<Rightarrow> client_message" where
  "normalise_message (Hello app rc h d t p) = Hello app (deserialize_room_code (code_str rc)) h d t p"
| "normalise_message m = m"

lemma normalise_message_idem: "normalise_message (normalise_message m) = normalise_message m"
  by (cases m) (simp_all add: deserialize_room_code_def)

end
