(* ===== verification/World.thy ===== *)
theory World
  imports Messages "HOL-Library.List_Lexorder" "HOL-Library.Char_ord"
begin

text \<open>
  What the server takes from outside its own sources, as one record of parameters: the
  outcome of a \<open>try_send\<close> on a bounded channel, the hash table seeds, random numbers,
  Unicode case folding, the iteration order of the concurrent maps, the environment
  variables, the file system, the JSON parser and \<open>bincode\<close>.  Every operation of the model
  takes the record of its own moment, so two calls may see different outcomes.
  Documented behaviour of a parameter is a predicate here, used as a hypothesis only where
  a result needs it.
\<close>

text \<open>A connection is named by its outbound channel.\<close>

type_synonym conn_id = nat

datatype send_result = Sent | Full | Closed

text \<open>Every attempt to send, in order, with its outcome.\<close>

type_synonym send_log = "(conn_id \<times> server_message \<times> send_result) list"

record world =
  w_try_send :: "send_log \<Rightarrow> conn_id \<Rightarrow> server_message \<Rightarrow> send_result"
  w_random_state :: "nat \<Rightarrow> peer_id list \<Rightarrow> nat list"
  w_gen_range :: "nat \<Rightarrow> nat \<Rightarrow> nat"
  w_case_fold :: "string \<Rightarrow> string"
  w_iter :: "string \<Rightarrow> string set \<Rightarrow> string list"
  w_app_secret :: "string option"
  w_app_dir :: "string option"
  w_is_dir :: "string \<Rightarrow> bool"
  w_current_dir :: "string option"
  w_exe_parent :: "string option"
  w_read_to_string :: "string \<Rightarrow> string option"
  w_parse_defaults :: "string \<Rightarrow> (u32 option \<times> u32 option) option"
  w_bincode_ser :: "nat \<Rightarrow> server_message \<Rightarrow> byte list option"
  w_bincode_de :: "nat \<Rightarrow> byte list \<Rightarrow> client_message option"

text \<open>\<open>gen_range(0..n)\<close> returns a number below \<open>n\<close>.\<close>

definition gen_range_ok :: "world \<Rightarrow> bool" where
  "gen_range_ok w \<longleftrightarrow> (\<forall>i n. 0 < n \<longrightarrow> w_gen_range w i n < n)"

text \<open>Iterating a concurrent map visits each of its keys once.\<close>

definition iter_ok :: "world \<Rightarrow> bool" where
  "iter_ok w \<longleftrightarrow> (\<forall>x ks. finite ks \<longrightarrow> distinct (w_iter w x ks) \<and> set (w_iter w x ks) = ks)"

text \<open>On ASCII strings \<open>UniCase\<close> compares up to the case of the letters.\<close>

definition ascii_lower :: "char \<Rightarrow> char" where
  "ascii_lower c =
     (let n = (of_char c :: nat) in if 65 \<le> n \<and> n \<le> 90 then char_of (n + 32) else c)"

definition is_ascii :: "string \<Rightarrow> bool" where
  "is_ascii s = (\<forall>c \<in> set s. (of_char c :: nat) < 128)"

definition unicase_ok :: "world \<Rightarrow> bool" where
  "unicase_ok w \<longleftrightarrow>
     (\<forall>s t. is_ascii s \<longrightarrow> is_ascii t \<longrightarrow>
        (w_case_fold w s = w_case_fold w t \<longleftrightarrow> map ascii_lower s = map ascii_lower t))"

text \<open>\<open>bincode\<close> with a limit writes at most that many bytes.\<close>

definition bincode_limit_ok :: "world \<Rightarrow> bool" where
  "bincode_limit_ok w \<longleftrightarrow>
     (\<forall>limit m bs. w_bincode_ser w limit m = Some bs \<longrightarrow> length bs \<le> limit)"

section \<open>Sending on a channel\<close>

definition try_send :: "world \<Rightarrow> conn_id \<Rightarrow> server_message \<Rightarrow> send_log \<Rightarrow> send_result \<times> send_log" where
  "try_send w c m lg = (let r = w_try_send w lg c m in (r, lg @ [(c, m, r)]))"

text \<open>\<open>is_closed\<close> of \<open>room.rs\<close>: the receiver was dropped; a full queue only drops the message.\<close>

definition is_closed :: "send_result \<Rightarrow> bool" where
  "is_closed r = (r = Closed)"

definition log_msgs :: "send_log \<Rightarrow> server_message set" where
  "log_msgs lg = (\<lambda>(_, m, _). m) ` set lg"

lemma log_msgs_append [simp]: "log_msgs (xs @ ys) = log_msgs xs \<union> log_msgs ys"
  by (simp add: log_msgs_def image_Un)

lemma log_msgs_Nil [simp]: "log_msgs [] = {}"
  by (simp add: log_msgs_def)

lemma log_msgs_Cons [simp]: "log_msgs ((c, m, r) # lg) = insert m (log_msgs lg)"
  by (simp add: log_msgs_def)

lemma is_closed_iff [simp]: "is_closed r \<longleftrightarrow> r = Closed"
  by (simp add: is_closed_def)

section \<open>A concrete world\<close>

text \<open>
  A world in which every send succeeds, nothing is on disk and no secret is set: the base of
  the concrete runs the development evaluates.
\<close>

definition quiet_world :: world where
  "quiet_world = \<lparr>w_try_send = (\<lambda>_ _ _. Sent), w_random_state = (\<lambda>_ _. []),
     w_gen_range = (\<lambda>i n. i mod n), w_case_fold = map ascii_lower,
     w_iter = (\<lambda>_. sorted_list_of_set), w_app_secret = None, w_app_dir = None,
     w_is_dir = (\<lambda>_. False), w_current_dir = None, w_exe_parent = None,
     w_read_to_string = (\<lambda>_. None), w_parse_defaults = (\<lambda>_. None),
     w_bincode_ser = (\<lambda>_ _. None), w_bincode_de = (\<lambda>_ _. None)\<rparr>"

end
