(* ===== verification/Load.thy ===== *)
theory Load
  imports World
begin

text \<open>
  \<open>schema/load.rs\<close>: which app keys are registered and their default room settings, from the
  built-in list, a JSON file of the app directory, and a process-wide cache that is threaded
  through as a map.
\<close>

type_synonym app_cache = "string \<rightharpoonup> room_settings"

text \<open>\<open>PathBuf::join\<close> on Unix: an absolute second part replaces the first.\<close>

definition path_join :: "string \<Rightarrow> string \<Rightarrow> string" where
  "path_join p q =
     (if q \<noteq> [] \<and> hd q = CHR ''/'' then q
      else if p = [] \<or> last p = CHR ''/'' then p @ q
      else p @ ''/'' @ q)"

definition app_dir :: "world \<Rightarrow> string option" where
  "app_dir w =
     (let from_env = Option.bind (w_app_dir w) (\<lambda>d. if w_is_dir w d then Some d else None);
          from_cwd = Option.bind (w_current_dir w)
            (\<lambda>c. let p = path_join c ''apps'' in if w_is_dir w p then Some p else None);
          from_exe = Option.bind (w_exe_parent w)
            (\<lambda>e. find (w_is_dir w) (map (path_join e) [''apps'', ''../apps'', ''../../apps'']))
      in case from_env of Some d \<Rightarrow> Some d
         | None \<Rightarrow> (case from_cwd of Some p \<Rightarrow> Some p | None \<Rightarrow> from_exe))"

definition is_builtin_app :: "string \<Rightarrow> bool" where
  "is_builtin_app app_key = (app_key = ''pong'')"

definition app_fallback :: "string \<Rightarrow> room_settings" where
  "app_fallback app_key =
     (let (mn, mx) = (if is_builtin_app app_key then (2, 2) else (0, 0 :: u32))
      in default_settings\<lparr>min_players := mn, max_players := (if 0 < mx then mx else 0)\<rparr>)"

text \<open>
  The JSON parser gives the two fields that are present; \<open>#[serde(default)]\<close> makes a missing
  one 0.
\<close>

record app_room_defaults =
  ard_min_players :: u32
  ard_max_players :: u32

definition deserialize_defaults :: "u32 option \<times> u32 option \<Rightarrow> app_room_defaults" where
  [simp]: "deserialize_defaults found =
     \<lparr>ard_min_players = (case fst found of None \<Rightarrow> 0 | Some n \<Rightarrow> n),
      ard_max_players = (case snd found of None \<Rightarrow> 0 | Some n \<Rightarrow> n)\<rparr>"

definition load_settings_from_disk :: "world \<Rightarrow> string \<Rightarrow> room_settings option" where
  "load_settings_from_disk w app_key =
     Option.bind (app_dir w) (\<lambda>dir.
     Option.bind (w_read_to_string w (path_join dir (app_key @ ''.json''))) (\<lambda>contents.
     Option.bind (w_parse_defaults w contents) (\<lambda>found.
       let defaults = deserialize_defaults found
       in Some (default_settings\<lparr>min_players := ard_min_players defaults,
            max_players := (if 0 < ard_max_players defaults then ard_max_players defaults
                            else max_players default_settings)\<rparr>))))"

definition default_room_settings_for_app ::
  "world \<Rightarrow> string \<Rightarrow> app_cache \<Rightarrow> room_settings \<times> app_cache" where
  "default_room_settings_for_app w app_key cache =
     (case cache app_key of
        Some st \<Rightarrow> (st, cache)
      | None \<Rightarrow>
          if is_builtin_app app_key
          then let st = app_fallback app_key in (st, cache(app_key \<mapsto> st))
          else (case load_settings_from_disk w app_key of
                  Some st \<Rightarrow> (st, cache(app_key \<mapsto> st))
                | None \<Rightarrow> (app_fallback app_key, cache)))"

definition is_registered_app :: "world \<Rightarrow> string \<Rightarrow> app_cache \<Rightarrow> bool \<times> app_cache" where
  "is_registered_app w app_key cache =
     (if cache app_key \<noteq> None then (True, cache)
      else if is_builtin_app app_key then (True, cache(app_key \<mapsto> app_fallback app_key))
      else (case load_settings_from_disk w app_key of
              Some st \<Rightarrow> (True, cache(app_key \<mapsto> st))
            | None \<Rightarrow> (False, cache)))"

section \<open>What a lookup leaves in the cache\<close>

lemma is_registered_appD:
  "is_registered_app w a c = (True, c') \<Longrightarrow> c \<subseteq>\<^sub>m c' \<and> c' a \<noteq> None"
  by (auto simp: is_registered_app_def map_le_def split: if_splits option.splits)

lemma is_registered_app_mono: "is_registered_app w a c = (b, c') \<Longrightarrow> c \<subseteq>\<^sub>m c'"
  by (auto simp: is_registered_app_def map_le_def split: if_splits option.splits)

lemma default_settings_mono: "default_room_settings_for_app w a c = (st, c') \<Longrightarrow> c \<subseteq>\<^sub>m c'"
  by (auto simp: default_room_settings_for_app_def map_le_def Let_def split: if_splits option.splits)

lemma default_settings_cached: "c a = Some st \<Longrightarrow> default_room_settings_for_app w a c = (st, c)"
  by (simp add: default_room_settings_for_app_def)

text \<open>
  The settings a fresh room starts with are the two player counts: no password, private, no
  acceptance step.
\<close>

definition plain_defaults :: "room_settings \<Rightarrow> bool" where
  "plain_defaults st \<longleftrightarrow>
     st = default_settings\<lparr>min_players := min_players st, max_players := max_players st\<rparr>"

definition cache_plain :: "app_cache \<Rightarrow> bool" where
  "cache_plain c \<longleftrightarrow> (\<forall>a st. c a = Some st \<longrightarrow> plain_defaults st)"

lemma plain_fallback: "plain_defaults (app_fallback a)"
  by (simp add: plain_defaults_def app_fallback_def default_settings_def)

lemma plain_from_disk: "load_settings_from_disk w a = Some st \<Longrightarrow> plain_defaults st"
  by (auto simp: load_settings_from_disk_def plain_defaults_def default_settings_def Let_def
      bind_eq_Some_conv)

lemma cache_plain_registered:
  "cache_plain c \<Longrightarrow> is_registered_app w a c = (b, c') \<Longrightarrow> cache_plain c'"
  by (auto simp: cache_plain_def is_registered_app_def plain_fallback plain_from_disk
      split: if_splits option.splits)

lemma cache_plain_defaults:
  "cache_plain c \<Longrightarrow> default_room_settings_for_app w a c = (st, c') \<Longrightarrow> cache_plain c' \<and> plain_defaults st"
  by (auto simp: cache_plain_def default_room_settings_for_app_def Let_def plain_fallback plain_from_disk
      split: if_splits option.splits)

lemma plain_password: "plain_defaults st \<Longrightarrow> password st = None"
  by (metis default_settings_def plain_defaults_def room_settings.select_convs(4)
      room_settings.update_convs(1,2))

lemma plain_accept: "plain_defaults st \<Longrightarrow> \<not> accept_required st"
  by (metis default_settings_def plain_defaults_def room_settings.select_convs(5)
      room_settings.update_convs(1,2))

end
