(* ===== verification/Room.thy ===== *)
theory Room
  imports World
begin

text \<open>
  \<open>room/room.rs\<close>: the state of one game room, the allocation of peer ids and sides, the
  capacity and ban checks, and the well-formedness every operation keeps.  The operations
  that send are in \<open>Broadcast\<close>.
\<close>

section \<open>State\<close>

record client_info =
  client_hash :: client_hash
  display_name :: "string option"
  tx :: conn_id
  side :: u8

record room =
  app_key :: string
  code :: room_code
  host_peer_id :: peer_id
  clients :: "(peer_id, client_info) hash_map"
  pending :: "(peer_id, client_info) hash_map"
  state :: "byte list"
  settings :: room_settings
  banned :: "client_hash set"
  next_peer_id :: peer_id

definition Room_new :: "world \<Rightarrow> string \<Rightarrow> room_code \<Rightarrow> room_settings \<Rightarrow> room" where
  "Room_new w a c st =
     \<lparr>app_key = a, code = c, host_peer_id = 0,
      clients = hm_new (w_random_state w 0), pending = hm_new (w_random_state w 1),
      state = [], settings = st, banned = {}, next_peer_id = 1\<rparr>"

section \<open>Peer ids, sides, capacity\<close>

definition in_use :: "room \<Rightarrow> peer_id \<Rightarrow> bool" where
  "in_use r pid \<longleftrightarrow> hm_contains_key (clients r) pid \<or> hm_contains_key (pending r) pid"

text \<open>\<open>for candidate in lo..hi { if !in_use(candidate) { .. } }\<close>\<close>

definition free_id_in :: "room \<Rightarrow> nat \<Rightarrow> nat \<Rightarrow> peer_id option" where
  "free_id_in r lo hi = map_option word_of_nat (first_in_range (\<lambda>c. \<not> in_use r (word_of_nat c)) lo hi)"

text \<open>The method \<open>next_peer_id\<close> (the field has the same name).\<close>

definition alloc_peer_id :: "room \<Rightarrow> peer_id option \<times> room" where
  "alloc_peer_id r =
     (let i = next_peer_id r;
          r1 = r\<lparr>next_peer_id := saturating_add (next_peer_id r) 1\<rparr>
      in if in_use r i then
           let start = unat (max (next_peer_id r1) 1) in
           case (case free_id_in r start 4294967296 of
                   Some c \<Rightarrow> Some c
                 | None \<Rightarrow> free_id_in r 1 start) of
             Some c \<Rightarrow> (Some c, r1\<lparr>next_peer_id := saturating_add c 1\<rparr>)
           | None \<Rightarrow> (None, r1)
         else (Some i, r1))"

definition used_sides :: "room \<Rightarrow> u8 set" where
  "used_sides r = set (map side (hm_values (clients r)) @ map side (hm_values (pending r)))"

definition max_side :: "room \<Rightarrow> u8" where
  "max_side r =
     (if max_players (settings r) = 0 then 255 else ucast (min (max_players (settings r)) 255))"

definition next_available_side :: "room \<Rightarrow> u8" where
  "next_available_side r =
     (case first_in_range (\<lambda>s. word_of_nat s \<notin> used_sides r) 0 (Suc (unat (max_side r))) of
        Some s \<Rightarrow> word_of_nat s
      | None \<Rightarrow> 0)"

definition is_full :: "room \<Rightarrow> bool" where
  "is_full r =
     (let mx = max_players (settings r)
      in if mx = 0 then False
         else mx \<le> word_of_nat (hm_len (clients r) + hm_len (pending r)))"

definition is_banned :: "room \<Rightarrow> client_hash \<Rightarrow> bool" where
  "is_banned r h \<longleftrightarrow> h \<in> banned r"

section \<open>Well-formed rooms\<close>

definition client_ids :: "room \<Rightarrow> peer_id set" where
  "client_ids r = dom (hm_get (clients r))"

definition pending_ids :: "room \<Rightarrow> peer_id set" where
  "pending_ids r = dom (hm_get (pending r))"

definition members :: "room \<Rightarrow> peer_id set" where
  "members r = client_ids r \<union> pending_ids r"

text \<open>
  Both tables have one entry per id, no id is in both, and 0 (the value of \<open>host_peer_id\<close>
  when there is no host) is never a peer's id.
\<close>

definition room_wf :: "room \<Rightarrow> bool" where
  "room_wf r \<longleftrightarrow> hm_ok (clients r) \<and> hm_ok (pending r) \<and>
     client_ids r \<inter> pending_ids r = {} \<and> 0 \<notin> members r \<and> next_peer_id r \<noteq> 0"

lemma room_wfD:
  assumes "room_wf r"
  shows "hm_ok (clients r)" "hm_ok (pending r)" "client_ids r \<inter> pending_ids r = {}"
    "0 \<notin> members r" "next_peer_id r \<noteq> 0"
  using assms by (simp_all add: room_wf_def)

lemma room_wf_new [simp]: "room_wf (Room_new w a c st)"
  by (simp add: room_wf_def Room_new_def client_ids_def pending_ids_def members_def)

lemma in_use_members: "in_use r pid \<longleftrightarrow> pid \<in> members r"
  by (auto simp: in_use_def members_def client_ids_def pending_ids_def)

lemma finite_members [simp]: "finite (members r)"
  by (simp add: members_def client_ids_def pending_ids_def)

lemma card_members:
  "room_wf r \<Longrightarrow> card (members r) = hm_len (clients r) + hm_len (pending r)"
  by (simp add: members_def client_ids_def pending_ids_def room_wf_def hm_len_card card_Un_disjoint)

text \<open>The record of a member, accepted or waiting.\<close>

definition member_info :: "room \<Rightarrow> peer_id \<Rightarrow> client_info option" where
  "member_info r pid = (case hm_get (clients r) pid of Some i \<Rightarrow> Some i | None \<Rightarrow> hm_get (pending r) pid)"

lemma dom_member_info: "dom (member_info r) = members r"
  by (auto simp: member_info_def members_def client_ids_def pending_ids_def split: option.splits)

section \<open>Allocating a peer id\<close>

lemma free_id_in_SomeD:
  assumes "free_id_in r lo hi = Some c" and "0 < lo" and "hi \<le> 4294967296"
  shows "c \<notin> members r \<and> c \<noteq> 0 \<and> lo \<le> unat c \<and> unat c < hi"
proof -
  from assms(1) obtain n where n: "first_in_range (\<lambda>c. \<not> in_use r (word_of_nat c)) lo hi = Some n"
    and c: "c = word_of_nat n"
    by (auto simp: free_id_in_def)
  from first_in_range_SomeD [OF n] have lt: "lo \<le> n" "n < hi" "\<not> in_use r c"
    by (auto simp: c)
  with assms(2,3) have "unat c = n" by (simp add: c unat_of_nat)
  with lt assms(2) show ?thesis by (auto simp: in_use_members)
qed

lemma free_id_in_None:
  assumes "free_id_in r lo hi = None" and "lo \<le> unat c" and "unat c < hi"
  shows "c \<in> members r"
proof -
  from assms(1) have "\<forall>n. lo \<le> n \<and> n < hi \<longrightarrow> in_use r (word_of_nat n)"
    by (auto simp: free_id_in_def first_in_range_None)
  with assms(2,3) have "in_use r (word_of_nat (unat c))" by blast
  then show ?thesis by (simp add: in_use_members)
qed

lemma max_1_pos: "0 < unat (max (n :: u32) 1)"
proof -
  have "(1 :: u32) \<le> max n 1" by simp
  then show ?thesis by (simp add: word_le_nat_alt)
qed

lemma alloc_peer_id_frame: "alloc_peer_id r = (res, r') \<Longrightarrow> r' = r\<lparr>next_peer_id := next_peer_id r'\<rparr>"
  by (auto simp: alloc_peer_id_def Let_def split: if_splits option.splits)

lemma alloc_peer_id_next: "alloc_peer_id r = (res, r') \<Longrightarrow> next_peer_id r' \<noteq> 0"
  by (auto simp: alloc_peer_id_def Let_def split: if_splits option.splits)

lemma alloc_peer_id_fresh:
  assumes "room_wf r" and "alloc_peer_id r = (Some pid, r')"
  shows "pid \<noteq> 0 \<and> pid \<notin> members r"
proof (cases "in_use r (next_peer_id r)")
  case False
  with assms show ?thesis by (auto simp: alloc_peer_id_def Let_def in_use_members room_wf_def)
next
  case True
  let ?start = "unat (max (saturating_add (next_peer_id r) 1) 1)"
  have "?start < 4294967296" by (rule unat_u32_lt)
  from assms(2) True have
    "free_id_in r ?start 4294967296 = Some pid \<or> free_id_in r 1 ?start = Some pid"
    by (auto simp: alloc_peer_id_def Let_def split: if_splits option.splits)
  then show ?thesis
  proof
    assume "free_id_in r ?start 4294967296 = Some pid"
    from free_id_in_SomeD [OF this max_1_pos] show ?thesis by simp
  next
    assume "free_id_in r 1 ?start = Some pid"
    from free_id_in_SomeD [OF this] \<open>?start < 4294967296\<close> show ?thesis by simp
  qed
qed

lemma alloc_peer_id_None:
  assumes "alloc_peer_id r = (None, r')" and "pid \<noteq> 0"
  shows "pid \<in> members r"
proof -
  let ?start = "unat (max (saturating_add (next_peer_id r) 1) 1)"
  from assms(1) have f: "free_id_in r ?start 4294967296 = None" "free_id_in r 1 ?start = None"
    by (auto simp: alloc_peer_id_def Let_def split: if_splits option.splits)
  have "1 \<le> unat pid" using assms(2) by (simp add: Suc_leI unat_gt_0)
  then show ?thesis
    using free_id_in_None [OF f(1), of pid] free_id_in_None [OF f(2), of pid] unat_u32_lt [of pid]
    by (cases "?start \<le> unat pid") auto
qed

section \<open>Allocating a side\<close>

lemma card_used_sides:
  assumes "room_wf r"
  shows "card (used_sides r) \<le> card (members r)"
proof -
  have "card (used_sides r) \<le> length (map side (hm_values (clients r)) @ map side (hm_values (pending r)))"
    unfolding used_sides_def by (rule card_length)
  also have "\<dots> = card (members r)"
    by (simp add: card_members [OF assms] hm_len_def hm_values_def)
  finally show ?thesis .
qed

lemma unat_byte_of_nat_eq: "n < 256 \<Longrightarrow> unat (word_of_nat n :: u8) = n"
  by (simp add: unat_of_nat)

lemma word_of_nat_inj_u8: "inj_on (word_of_nat :: nat \<Rightarrow> u8) {..<256}"
  by (rule inj_onI) (metis lessThan_iff unat_byte_of_nat_eq)

text \<open>Fewer members than sides: the first free side exists and is unused.\<close>

lemma next_available_side_fresh:
  assumes "room_wf r" and "card (members r) \<le> n" and "n \<le> unat (max_side r)"
  shows "next_available_side r \<notin> used_sides r \<and> unat (next_available_side r) \<le> n"
proof -
  let ?p = "\<lambda>s. (word_of_nat s :: u8) \<notin> used_sides r"
  have le: "n < 256" using assms(3) unat_byte_lt [of "max_side r"] by simp
  then have sub: "{..n} \<subseteq> {..<256}" by auto
  have "\<exists>s \<le> n. ?p s"
  proof (rule ccontr)
    assume "\<not> (\<exists>s \<le> n. ?p s)"
    then have "(word_of_nat :: nat \<Rightarrow> u8) ` {..n} \<subseteq> used_sides r" by auto
    then have "card ((word_of_nat :: nat \<Rightarrow> u8) ` {..n}) \<le> card (used_sides r)"
      by (rule card_mono [rotated]) (simp add: used_sides_def)
    moreover have "card ((word_of_nat :: nat \<Rightarrow> u8) ` {..n}) = Suc n"
      using inj_on_subset [OF word_of_nat_inj_u8 sub] by (simp add: card_image)
    ultimately show False using card_used_sides [OF assms(1)] assms(2) by simp
  qed
  then obtain s where s: "s \<le> n" "?p s" by blast
  let ?f = "first_in_range ?p 0 (Suc (unat (max_side r)))"
  have "?f \<noteq> None" using s assms(3) by (auto simp: first_in_range_None intro!: exI [of _ s])
  then obtain t where t: "?f = Some t" by blast
  from first_in_range_SomeD [OF t] have pt: "?p t" and "\<forall>d < t. \<not> ?p d" by auto
  then have "t \<le> n" using s by (meson le_trans not_le)
  with t pt le show ?thesis
    by (simp add: next_available_side_def unat_of_nat)
qed

lemma not_full_card:
  assumes "room_wf r" and "\<not> is_full r" and "max_players (settings r) \<noteq> 0"
    and "card (members r) < 4294967296"
  shows "card (members r) < unat (max_players (settings r))"
  using assms by (simp add: is_full_def Let_def card_members not_le word_less_nat_alt unat_of_nat
      del: of_nat_add)

end
