(* ===== verification/Broadcast.thy ===== *)
theory Broadcast
  imports Room
begin

text \<open>
  The sending operations of \<open>room/room.rs\<close>: \<open>broadcast_retain_connected\<close>,
  \<open>broadcast_state_update_retain_connected\<close> and \<open>send_to_retain_connected\<close>.  Each takes and
  returns the room with the log of sends, drops the peers whose channel is closed and
  repairs the host.  What the two removal loops share is the locale \<open>peer_removal\<close>, what
  the two broadcasts share the relation \<open>pruned\<close> and the predicate \<open>elected\<close>.
\<close>

section \<open>Sending\<close>

type_synonym room_ctx = "room \<times> send_log"

text \<open>The first loop of a broadcast: try every entry, collect the ids of closed channels.\<close>

fun send_each ::
  "world \<Rightarrow> server_message \<Rightarrow> (peer_id \<times> client_info) list \<Rightarrow> send_log \<Rightarrow> peer_id list \<times> send_log" where
  "send_each w m [] lg = ([], lg)"
| "send_each w m ((pid, info) # es) lg =
     (let (r, lg1) = try_send w (tx info) m lg;
          (dead, lg2) = send_each w m es lg1
      in (if is_closed r then pid # dead else dead, lg2))"

text \<open>\<open>if self.host_peer_id == *pid\<close>: the first remaining client becomes host, 0 if there is none.\<close>

definition fix_host :: "peer_id \<Rightarrow> room \<Rightarrow> peer_id option \<Rightarrow> room \<times> peer_id option" where
  "fix_host pid r new_host =
     (if host_peer_id r = pid
      then let n = hm_first_key (clients r)
           in (r\<lparr>host_peer_id := (case n of None \<Rightarrow> 0 | Some h \<Rightarrow> h)\<rparr>, n)
      else (r, new_host))"

text \<open>The loop \<open>for pid in &dead { remove pid; if host == pid { .. } }\<close>, for either removal.\<close>

definition remove_client :: "peer_id \<Rightarrow> room \<Rightarrow> room" where
  "remove_client pid r = r\<lparr>clients := hm_remove pid (clients r)\<rparr>"

definition remove_member :: "peer_id \<Rightarrow> room \<Rightarrow> room" where
  "remove_member pid r =
     r\<lparr>clients := hm_remove pid (clients r), pending := hm_remove pid (pending r)\<rparr>"

fun drop_dead ::
  "(peer_id \<Rightarrow> room \<Rightarrow> room) \<Rightarrow> peer_id list \<Rightarrow> room \<Rightarrow> peer_id option \<Rightarrow> room \<times> peer_id option" where
  "drop_dead rm [] r nh = (r, nh)"
| "drop_dead rm (pid # ps) r nh =
     (let (r', nh') = fix_host pid (rm pid r) nh in drop_dead rm ps r' nh')"

definition broadcast_retain_connected ::
  "world \<Rightarrow> server_message \<Rightarrow> room_ctx \<Rightarrow> (peer_id list \<times> peer_id option) \<times> room_ctx" where
  "broadcast_retain_connected w m = (\<lambda>(r, lg).
     let (dead, lg') = send_each w m (table (clients r)) lg;
         (r', nh) = drop_dead remove_client dead r None
     in ((dead, nh), (r', lg')))"

definition broadcast_state_update_retain_connected ::
  "world \<Rightarrow> room_ctx \<Rightarrow> (peer_id list \<times> peer_id option) \<times> room_ctx" where
  "broadcast_state_update_retain_connected w = (\<lambda>(r, lg).
     let m = StateUpdate (state r);
         (dead1, lg1) = send_each w m (table (clients r)) lg;
         (dead2, lg2) = send_each w m (table (pending r)) lg1;
         dead = dead1 @ dead2;
         (r', nh) = drop_dead remove_member dead r None
     in ((dead, nh), (r', lg2)))"

definition send_to_retain_connected ::
  "world \<Rightarrow> peer_id \<Rightarrow> server_message \<Rightarrow> room_ctx \<Rightarrow> bool \<times> room_ctx" where
  "send_to_retain_connected w pid m = (\<lambda>(r, lg).
     case (case hm_get (clients r) pid of
             Some info \<Rightarrow> Some info
           | None \<Rightarrow> hm_get (pending r) pid) of
       None \<Rightarrow> (True, (r, lg))
     | Some info \<Rightarrow>
         let (res, lg') = try_send w (tx info) m lg
         in if is_closed res
            then (False, (fst (fix_host pid (remove_member pid r) None), lg'))
            else (True, (r, lg')))"

section \<open>What a removal of peers leaves\<close>

text \<open>
  \<open>pruned D r r'\<close>: exactly the members in \<open>D\<close> are gone, nothing else but the host changed,
  and the host changed only if it was in \<open>D\<close>, to a remaining client if there is one.
\<close>

definition pruned :: "peer_id set \<Rightarrow> room \<Rightarrow> room \<Rightarrow> bool" where
  "pruned D r r' \<longleftrightarrow>
     room_wf r' \<and> D \<subseteq> members r \<and>
     r' = r\<lparr>host_peer_id := host_peer_id r', clients := clients r', pending := pending r'\<rparr> \<and>
     hm_get (clients r') = hm_get (clients r) |` (- D) \<and>
     hm_get (pending r') = hm_get (pending r) |` (- D) \<and>
     (host_peer_id r \<notin> D \<longrightarrow> host_peer_id r' = host_peer_id r) \<and>
     (host_peer_id r \<in> D \<longrightarrow>
        (if client_ids r' = {} then host_peer_id r' = 0 else host_peer_id r' \<in> client_ids r'))"

lemma pruned_client_ids: "pruned D r r' \<Longrightarrow> client_ids r' = client_ids r - D"
  by (auto simp: pruned_def client_ids_def)

lemma pruned_pending_ids: "pruned D r r' \<Longrightarrow> pending_ids r' = pending_ids r - D"
  by (auto simp: pruned_def pending_ids_def)

lemma pruned_members: "pruned D r r' \<Longrightarrow> members r' = members r - D"
  by (auto simp: members_def pruned_client_ids pruned_pending_ids)

lemma pruned_wf: "pruned D r r' \<Longrightarrow> room_wf r'"
  by (simp add: pruned_def)

lemma pruned_frame:
  assumes "pruned D r r'"
  shows "app_key r' = app_key r" "code r' = code r" "state r' = state r"
    "settings r' = settings r" "banned r' = banned r" "next_peer_id r' = next_peer_id r"
proof -
  from assms have "r' = r\<lparr>host_peer_id := host_peer_id r', clients := clients r', pending := pending r'\<rparr>"
    by (simp add: pruned_def)
  then show "app_key r' = app_key r" "code r' = code r" "state r' = state r"
    "settings r' = settings r" "banned r' = banned r" "next_peer_id r' = next_peer_id r"
    by (metis room.select_convs room.surjective room.update_convs(3,4,5))+
qed

lemma pruned_refl: "room_wf r \<Longrightarrow> pruned {} r r"
  by (auto simp: pruned_def restrict_map_def)

lemma pruned_trans:
  assumes p: "pruned D r r'" and q: "pruned E r' r''" and wf: "room_wf r"
  shows "pruned (D \<union> E) r r''"
proof -
  have ids: "client_ids r' = client_ids r - D" "client_ids r'' = client_ids r' - E"
    "members r' = members r - D"
    using p q by (simp_all add: pruned_client_ids pruned_members)
  have z: "0 \<notin> E" using q p wf by (auto simp: pruned_def room_wf_def)
  from p have r': "r' = r\<lparr>host_peer_id := host_peer_id r', clients := clients r', pending := pending r'\<rparr>"
    by (simp add: pruned_def)
  from q have "r'' = r'\<lparr>host_peer_id := host_peer_id r'', clients := clients r'', pending := pending r''\<rparr>"
    by (simp add: pruned_def)
  then have eq: "r'' = r\<lparr>host_peer_id := host_peer_id r'', clients := clients r'', pending := pending r''\<rparr>"
    by (subst (asm) r') simp
  have host: "if client_ids r'' = {} then host_peer_id r'' = 0 else host_peer_id r'' \<in> client_ids r''"
    if "host_peer_id r \<in> D \<union> E"
  proof (cases "host_peer_id r' \<in> E")
    case True
    then show ?thesis using q by (simp add: pruned_def)
  next
    case False
    then have h: "host_peer_id r'' = host_peer_id r'" using q by (simp add: pruned_def)
    from False that p have "host_peer_id r \<in> D" by (auto simp: pruned_def)
    with p have "if client_ids r' = {} then host_peer_id r' = 0 else host_peer_id r' \<in> client_ids r'"
      by (simp add: pruned_def)
    with False h ids(2) show ?thesis by (auto split: if_splits)
  qed
  have "host_peer_id r'' = host_peer_id r" if "host_peer_id r \<notin> D \<union> E"
    using that p q by (auto simp: pruned_def)
  moreover have "D \<union> E \<subseteq> members r" using p q ids(3) by (auto simp: pruned_def)
  moreover have "hm_get (clients r'') = hm_get (clients r) |` (- (D \<union> E))"
    "hm_get (pending r'') = hm_get (pending r) |` (- (D \<union> E))"
    using p q by (simp_all add: pruned_def Int_commute)
  ultimately show ?thesis using host eq q by (simp add: pruned_def)
qed

text \<open>
  \<open>elected\<close>: the variable \<open>new_host\<close> holds the room's host if the host changed, unless no
  client is left.
\<close>

definition elected :: "peer_id option \<Rightarrow> peer_id set \<Rightarrow> room \<Rightarrow> room \<Rightarrow> peer_id option \<Rightarrow> bool" where
  "elected nh0 D r r' nh \<longleftrightarrow>
     (if host_peer_id r \<in> D
      then nh = (if client_ids r' = {} then None else Some (host_peer_id r'))
      else nh = nh0)"

lemma elected_trans:
  assumes e: "elected nh0 D r r1 nh1" and p: "pruned D r r1"
    and f: "elected nh1 E r1 r' nh" and q: "pruned E r1 r'"
  shows "elected nh0 (D \<union> E) r r' nh"
proof (cases "host_peer_id r1 \<in> E")
  case True
  with f have nh: "nh = (if client_ids r' = {} then None else Some (host_peer_id r'))"
    by (simp add: elected_def)
  moreover have "host_peer_id r \<in> D \<union> E" using True p by (cases "host_peer_id r \<in> D") (auto simp: pruned_def)
  ultimately show ?thesis by (simp add: elected_def)
next
  case False
  with f have nh: "nh = nh1" by (simp add: elected_def)
  from False q have h: "host_peer_id r' = host_peer_id r1" by (simp add: pruned_def)
  have ids: "client_ids r' = client_ids r1 - E" using q by (rule pruned_client_ids)
  show ?thesis
  proof (cases "host_peer_id r \<in> D")
    case D: True
    then have "if client_ids r1 = {} then host_peer_id r1 = 0 else host_peer_id r1 \<in> client_ids r1"
      using p by (simp add: pruned_def)
    then have "client_ids r' = {} \<longleftrightarrow> client_ids r1 = {}" using ids False by (auto split: if_splits)
    with D e nh h show ?thesis by (simp add: elected_def)
  next
    case D: False
    then have "host_peer_id r1 = host_peer_id r" using p by (simp add: pruned_def)
    with D False e nh show ?thesis by (simp add: elected_def)
  qed
qed

section \<open>The removal loops\<close>

locale peer_removal =
  fixes rm :: "peer_id \<Rightarrow> room \<Rightarrow> room" and ids :: "room \<Rightarrow> peer_id set"
  assumes ids_members: "ids r \<subseteq> members r"
    and ids_host: "ids (r\<lparr>host_peer_id := h\<rparr>) = ids r"
    and rm_clients: "room_wf r \<Longrightarrow> p \<in> ids r \<Longrightarrow> hm_get (clients (rm p r)) = (hm_get (clients r))(p := None)"
    and rm_pending: "room_wf r \<Longrightarrow> p \<in> ids r \<Longrightarrow> hm_get (pending (rm p r)) = (hm_get (pending r))(p := None)"
    and rm_frame: "rm p r = r\<lparr>clients := clients (rm p r), pending := pending (rm p r)\<rparr>"
    and rm_wf: "room_wf r \<Longrightarrow> room_wf (rm p r)"
    and rm_ids: "ids (rm p r) = ids r - {p}"
begin

lemma rm_host: "host_peer_id (rm p r) = host_peer_id r"
  by (subst rm_frame) simp

lemma fix_host_pruned:
  assumes wf: "room_wf r" and p: "p \<in> ids r" and fh: "fix_host p (rm p r) nh0 = (r', nh)"
  shows "pruned {p} r r' \<and> elected nh0 {p} r r' nh \<and> ids r' = ids r - {p}"
proof -
  from fh have h: "r' = (rm p r)\<lparr>host_peer_id := host_peer_id r'\<rparr>"
    by (auto simp: fix_host_def Let_def split: if_splits)
  then have c: "clients r' = clients (rm p r)" "pending r' = pending (rm p r)"
    by (metis room.surjective room.update_convs(3) room.select_convs(4,5))+
  have wf': "room_wf r'"
    using rm_wf [OF wf, of p] by (subst h) (simp add: room_wf_def members_def client_ids_def pending_ids_def)
  have eq: "r' = r\<lparr>host_peer_id := host_peer_id r', clients := clients r', pending := pending r'\<rparr>"
    by (subst h, subst rm_frame) (simp add: c)
  have ids': "ids r' = ids r - {p}"
    by (subst h) (simp add: ids_host rm_ids)
  have g: "hm_get (clients r') = hm_get (clients r) |` (- {p})"
    "hm_get (pending r') = hm_get (pending r) |` (- {p})"
    using rm_clients [OF wf p] rm_pending [OF wf p] by (auto simp: c restrict_map_def fun_eq_iff)
  have "elected nh0 {p} r r' nh \<and>
    (host_peer_id r = p \<longrightarrow> (if client_ids r' = {} then host_peer_id r' = 0 else host_peer_id r' \<in> client_ids r')) \<and>
    (host_peer_id r \<noteq> p \<longrightarrow> host_peer_id r' = host_peer_id r)"
  proof (cases "host_peer_id r = p")
    case True
    then have n: "nh = hm_first_key (clients r')" "host_peer_id r' = (case nh of None \<Rightarrow> 0 | Some h \<Rightarrow> h)"
      using fh by (auto simp: fix_host_def Let_def rm_host c)
    show ?thesis
    proof (cases "hm_first_key (clients r')")
      case None
      then have "client_ids r' = {}" by (simp only: client_ids_def hm_first_key_None)
      with None n True show ?thesis by (simp add: elected_def)
    next
      case (Some h)
      then have "h \<in> client_ids r'" unfolding client_ids_def by (rule hm_first_key_SomeD)
      with Some n True show ?thesis by (auto simp: elected_def)
    qed
  next
    case False
    then show ?thesis using fh by (auto simp: fix_host_def rm_host elected_def)
  qed
  moreover have "p \<in> members r" using p ids_members by blast
  ultimately show ?thesis using wf' eq g ids' by (simp add: pruned_def)
qed

lemma drop_dead_pruned:
  assumes "room_wf r" and "set ps \<subseteq> ids r" and "distinct ps" and "drop_dead rm ps r nh0 = (r', nh)"
  shows "pruned (set ps) r r' \<and> elected nh0 (set ps) r r' nh"
  using assms
proof (induction ps arbitrary: r nh0)
  case Nil
  then show ?case by (simp add: pruned_refl elected_def)
next
  case (Cons p ps)
  obtain r1 nh1 where fh: "fix_host p (rm p r) nh0 = (r1, nh1)" by fastforce
  from Cons.prems have p: "p \<in> ids r" by simp
  note one = fix_host_pruned [OF Cons.prems(1) p fh]
  from one have wf1: "room_wf r1" and sub: "set ps \<subseteq> ids r1"
    using Cons.prems by (auto simp: pruned_def)
  from Cons.prems fh have step: "drop_dead rm ps r1 nh1 = (r', nh)" by simp
  note rest = Cons.IH [OF wf1 sub _ step]
  from one rest Cons.prems have "pruned ({p} \<union> set ps) r r'"
    by (intro pruned_trans [of _ r r1 _ r']) simp_all
  moreover have "elected nh0 ({p} \<union> set ps) r r' nh"
  proof (rule elected_trans)
    show "elected nh0 {p} r r1 nh1" "pruned {p} r r1" using one by simp_all
    show "elected nh1 (set ps) r1 r' nh" "pruned (set ps) r1 r'" using rest Cons.prems(3) by simp_all
  qed
  ultimately show ?case by simp
qed

end

lemma remove_client_wf [simp]: "room_wf r \<Longrightarrow> room_wf (remove_client p r)"
  by (auto simp: room_wf_def remove_client_def client_ids_def pending_ids_def members_def)

lemma remove_member_wf [simp]: "room_wf r \<Longrightarrow> room_wf (remove_member p r)"
  by (auto simp: room_wf_def remove_member_def client_ids_def pending_ids_def members_def)

interpretation rc: peer_removal remove_client client_ids
proof unfold_locales
  fix r :: room and p assume "room_wf r" "p \<in> client_ids r"
  then have "hm_get (pending r) p = None"
    by (auto simp: room_wf_def client_ids_def pending_ids_def)
  then show "hm_get (pending (remove_client p r)) = (hm_get (pending r))(p := None)"
    by (simp add: remove_client_def fun_upd_idem)
qed (auto simp: remove_client_def members_def client_ids_def intro: remove_client_wf [unfolded remove_client_def])

interpretation rmb: peer_removal remove_member members
  by unfold_locales
    (auto simp: remove_member_def members_def client_ids_def pending_ids_def
      intro: remove_member_wf [unfolded remove_member_def])

section \<open>What the broadcasts send\<close>

text \<open>
  \<open>offered m ex i\<close>: the sends \<open>ex\<close> contain an attempt of \<open>m\<close> on the channel of \<open>i\<close> that did
  not find it closed (if its queue was full, the message was dropped).
\<close>

definition offered :: "server_message \<Rightarrow> send_log \<Rightarrow> client_info \<Rightarrow> bool" where
  "offered m ex i \<longleftrightarrow> (\<exists>res. res \<noteq> Closed \<and> (tx i, m, res) \<in> set ex)"

definition offered_all :: "server_message \<Rightarrow> send_log \<Rightarrow> room \<Rightarrow> bool" where
  "offered_all m ex r \<longleftrightarrow> (\<forall>pid i. hm_get (clients r) pid = Some i \<longrightarrow> offered m ex i)"

lemma offered_append [simp]: "offered m (xs @ ys) i \<longleftrightarrow> offered m xs i \<or> offered m ys i"
  by (auto simp: offered_def)

lemma offered_all_appendI: "offered_all m xs r \<or> offered_all m ys r \<Longrightarrow> offered_all m (xs @ ys) r"
  by (auto simp: offered_all_def)

lemma offered_all_pruned: "offered_all m ex r \<Longrightarrow> pruned D r r' \<Longrightarrow> offered_all m ex r'"
  by (auto simp: offered_all_def pruned_def restrict_map_def split: if_splits)

text \<open>The entries \<open>ex\<close> that follow \<open>lg\<close> are attempts with the outcomes they had.\<close>

fun attempts :: "world \<Rightarrow> send_log \<Rightarrow> send_log \<Rightarrow> bool" where
  "attempts w lg [] = True"
| "attempts w lg ((c, m, res) # ex) = (res = w_try_send w lg c m \<and> attempts w (lg @ [(c, m, res)]) ex)"

lemma attempts_append [simp]: "attempts w lg (xs @ ys) \<longleftrightarrow> attempts w lg xs \<and> attempts w (lg @ xs) ys"
  by (induction w lg xs rule: attempts.induct) auto

lemma attempts_outcome: "attempts w lg ex \<Longrightarrow> (c, m, res) \<in> set ex \<Longrightarrow> \<exists>lg1. res = w_try_send w lg1 c m"
  by (induction w lg ex rule: attempts.induct) auto

text \<open>
  \<open>sends_lose w r lg ex L\<close>: the sends \<open>ex\<close> went to members of \<open>r\<close>, and \<open>L\<close> are those whose channel they
  found closed.
\<close>

definition sends_lose :: "world \<Rightarrow> room \<Rightarrow> send_log \<Rightarrow> send_log \<Rightarrow> peer_id set \<Rightarrow> bool" where
  "sends_lose w r lg ex L \<longleftrightarrow> attempts w lg ex \<and>
     (\<forall>c m res. (c, m, res) \<in> set ex \<longrightarrow>
        (\<exists>pid i. member_info r pid = Some i \<and> tx i = c \<and> (res = Closed \<longrightarrow> pid \<in> L))) \<and>
     (\<forall>pid \<in> L. \<exists>i m. member_info r pid = Some i \<and> (tx i, m, Closed) \<in> set ex)"

lemma sends_lose_Nil [simp]: "sends_lose w r lg [] {}"
  by (simp add: sends_lose_def)

lemma pruned_member_info:
  assumes "pruned D r r'"
  shows "member_info r' = member_info r |` (- D)"
proof
  fix x
  from assms have "hm_get (clients r') = hm_get (clients r) |` (- D)"
    "hm_get (pending r') = hm_get (pending r) |` (- D)" by (simp_all add: pruned_def)
  then show "member_info r' x = (member_info r |` (- D)) x"
    by (cases "x \<in> D") (simp_all add: member_info_def split: option.split)
qed

lemma sends_lose_append:
  assumes e1: "sends_lose w r lg e1 L" and e2: "sends_lose w r1 (lg @ e1) e2 L'" and k: "member_info r1 \<subseteq>\<^sub>m member_info r"
  shows "sends_lose w r lg (e1 @ e2) (L \<union> L')"
proof -
  have sub: "member_info r pid = Some i" if "member_info r1 pid = Some i" for pid i
    using k that by (metis domI map_le_def)
  have "attempts w lg (e1 @ e2)" using e1 e2 by (simp add: sends_lose_def)
  moreover have "\<exists>pid i. member_info r pid = Some i \<and> tx i = c \<and> (res = Closed \<longrightarrow> pid \<in> L \<union> L')"
    if e: "(c, m, res) \<in> set (e1 @ e2)" for c m res
  proof (cases "(c, m, res) \<in> set e1")
    case True
    with e1 show ?thesis unfolding sends_lose_def by blast
  next
    case False
    with e have "(c, m, res) \<in> set e2" by simp
    with e2 sub show ?thesis unfolding sends_lose_def by blast
  qed
  moreover have "\<exists>i m. member_info r pid = Some i \<and> (tx i, m, Closed) \<in> set (e1 @ e2)" if "pid \<in> L \<union> L'" for pid
  proof (cases "pid \<in> L")
    case True
    with e1 obtain i m where "member_info r pid = Some i" "(tx i, m, Closed) \<in> set e1"
      unfolding sends_lose_def by blast
    then show ?thesis by auto
  next
    case False
    with that e2 obtain i m where "member_info r1 pid = Some i" "(tx i, m, Closed) \<in> set e2"
      unfolding sends_lose_def by blast
    with sub show ?thesis by fastforce
  qed
  ultimately show ?thesis unfolding sends_lose_def by blast
qed

lemma pruned_member_info_le: "pruned D r r' \<Longrightarrow> member_info r' \<subseteq>\<^sub>m member_info r"
  by (auto simp: pruned_member_info map_le_def restrict_map_def split: if_splits)

lemmas sends_lose_pruned = sends_lose_append [OF _ _ pruned_member_info_le]

text \<open>An entry of a table is a member.\<close>

lemma member_clients: "room_wf r \<Longrightarrow> (pid, i) \<in> set (table (clients r)) \<Longrightarrow> member_info r pid = Some i"
  using hm_entries [OF room_wfD(1)] by (simp add: member_info_def)

lemma member_pending: "room_wf r \<Longrightarrow> (pid, i) \<in> set (table (pending r)) \<Longrightarrow> member_info r pid = Some i"
proof -
  assume wf: "room_wf r" and "(pid, i) \<in> set (table (pending r))"
  then have p: "hm_get (pending r) pid = Some i" using hm_entries [OF room_wfD(2)] by blast
  then have "pid \<notin> client_ids r" using room_wfD(3) [OF wf] by (auto simp: pending_ids_def)
  with p show ?thesis by (auto simp: member_info_def client_ids_def split: option.split)
qed

text \<open>What one pass over a table sends, and which entries it reports.\<close>

definition sent_each ::
  "world \<Rightarrow> server_message \<Rightarrow> (peer_id \<times> client_info) list \<Rightarrow> send_log \<Rightarrow> send_log \<Rightarrow> peer_id list \<Rightarrow> bool" where
  "sent_each w m es lg ex dead \<longleftrightarrow> attempts w lg ex \<and> log_msgs ex \<subseteq> {m} \<and>
     (\<forall>pid i. (pid, i) \<in> set es \<longrightarrow> pid \<notin> set dead \<longrightarrow> offered m ex i) \<and>
     (\<forall>pid \<in> set dead. \<exists>i. (pid, i) \<in> set es \<and> (tx i, m, Closed) \<in> set ex) \<and>
     (\<forall>c m' res. (c, m', res) \<in> set ex \<longrightarrow>
        (\<exists>pid i. (pid, i) \<in> set es \<and> tx i = c \<and> (res = Closed \<longrightarrow> pid \<in> set dead)))"

lemma sent_each_Cons:
  assumes s: "sent_each w m es (lg @ [(tx info, m, res)]) ex d" and res: "res = w_try_send w lg (tx info) m"
  shows "sent_each w m ((p, info) # es) lg ((tx info, m, res) # ex) (if res = Closed then p # d else d)"
    (is "sent_each w m ?es lg ?ex ?d")
proof -
  have "attempts w lg ?ex" "log_msgs ?ex \<subseteq> {m}" using s res by (simp_all add: sent_each_def)
  moreover have "offered m ?ex i" if "(pid, i) \<in> set ?es" "pid \<notin> set ?d" for pid i
  proof (cases "(pid, i) = (p, info)")
    case True
    with that have "res \<noteq> Closed" by auto
    with True show ?thesis by (auto simp: offered_def)
  next
    case False
    with that have "(pid, i) \<in> set es" "pid \<notin> set d" by (auto split: if_splits)
    with s have "offered m ex i" by (simp add: sent_each_def)
    then show ?thesis by (auto simp: offered_def)
  qed
  moreover have "\<forall>pid \<in> set ?d. \<exists>i. (pid, i) \<in> set ?es \<and> (tx i, m, Closed) \<in> set ?ex"
    using s by (auto simp: sent_each_def)
  moreover have "\<exists>pid i. (pid, i) \<in> set ?es \<and> tx i = c \<and> (r' = Closed \<longrightarrow> pid \<in> set ?d)"
    if e: "(c, m', r') \<in> set ?ex" for c m' r'
  proof (cases "(c, m', r') \<in> set ex")
    case True
    with s obtain pid i where "(pid, i) \<in> set es" "tx i = c" "r' = Closed \<longrightarrow> pid \<in> set d"
      unfolding sent_each_def by blast
    then show ?thesis by (intro exI [of _ pid] exI [of _ i]) simp
  next
    case False
    with e have "c = tx info" "r' = res" by auto
    then show ?thesis by (intro exI [of _ p] exI [of _ info]) simp
  qed
  ultimately show ?thesis unfolding sent_each_def by blast
qed

lemma send_each_log: "send_each w m es lg = (dead, lg') \<Longrightarrow> \<exists>ex. lg' = lg @ ex \<and> sent_each w m es lg ex dead"
proof (induction es arbitrary: lg dead lg')
  case Nil
  then show ?case by (simp add: sent_each_def)
next
  case (Cons e es)
  obtain p info where e: "e = (p, info)" by fastforce
  let ?r = "w_try_send w lg (tx info) m"
  obtain d lg2 where rest: "send_each w m es (lg @ [(tx info, m, ?r)]) = (d, lg2)" by fastforce
  with Cons.prems e have out: "dead = (if ?r = Closed then p # d else d)" "lg' = lg2"
    by (auto simp: try_send_def Let_def split: if_splits)
  from Cons.IH [OF rest] obtain ex where ex: "lg2 = (lg @ [(tx info, m, ?r)]) @ ex"
    "sent_each w m es (lg @ [(tx info, m, ?r)]) ex d" by blast
  from sent_each_Cons [OF ex(2) refl] out ex(1) e show ?case by auto
qed

lemma sent_each_lose:
  assumes "sent_each w m es lg ex dead" and "\<And>pid i. (pid, i) \<in> set es \<Longrightarrow> member_info r pid = Some i"
  shows "sends_lose w r lg ex (set dead)"
proof -
  have "\<exists>pid i. member_info r pid = Some i \<and> tx i = c \<and> (res = Closed \<longrightarrow> pid \<in> set dead)"
    if "(c, m', res) \<in> set ex" for c m' res
    using assms that unfolding sent_each_def by blast
  with assms show ?thesis unfolding sends_lose_def sent_each_def by blast
qed

lemma sent_each_offered: "sent_each w m es lg ex dead \<Longrightarrow> (pid, i) \<in> set es \<Longrightarrow> pid \<notin> set dead \<Longrightarrow> offered m ex i"
  unfolding sent_each_def by blast

lemma sent_each_msgs: "sent_each w m es lg ex dead \<Longrightarrow> log_msgs ex \<subseteq> {m}"
  by (simp add: sent_each_def)

lemma send_each_dead:
  "send_each w m es lg = (dead, lg') \<Longrightarrow> mset dead \<subseteq># mset (map fst es)"
proof (induction es arbitrary: lg dead lg')
  case (Cons e es)
  obtain p info where e: "e = (p, info)" by fastforce
  obtain d lg2 where rest: "send_each w m es (lg @ [(tx info, m, w_try_send w lg (tx info) m)]) = (d, lg2)"
    by fastforce
  then have "mset d \<subseteq># mset (map fst es)" by (rule Cons.IH)
  then have "add_mset p (mset d) \<subseteq># add_mset p (mset (map fst es))"
    "mset d \<subseteq># add_mset p (mset (map fst es))"
    by (auto intro: subset_mset.order_trans)
  with Cons.prems e rest show ?case
    by (auto simp: try_send_def Let_def split: if_splits)
qed simp

lemma send_each_dead_distinct:
  assumes "send_each w m es lg = (dead, lg')" and "distinct (map fst es)"
  shows "distinct dead \<and> set dead \<subseteq> fst ` set es"
proof -
  from assms(1) have sub: "mset dead \<subseteq># mset (map fst es)" by (rule send_each_dead)
  have "count (mset (map fst es)) a \<le> 1" for a
    using assms(2) [unfolded distinct_count_atmost_1, rule_format, of a] by (simp split: if_splits)
  then have le: "count (mset dead) a \<le> 1" for a
    using mset_subset_eq_count [OF sub, of a] le_trans by blast
  have "count (mset dead) a = (if a \<in> set dead then 1 else 0)" for a
  proof (cases "a \<in> set dead")
    case True
    then have "count (mset dead) a \<noteq> 0" by (simp only: count_eq_zero_iff set_mset_mset not_not)
    with le [of a] have "count (mset dead) a = 1" by linarith
    with True show ?thesis by simp
  next
    case False
    then show ?thesis by (simp add: count_eq_zero_iff)
  qed
  then have "distinct dead" unfolding distinct_count_atmost_1 by blast
  moreover have "set dead \<subseteq> fst ` set es"
    using set_mset_mono [OF sub] by simp
  ultimately show ?thesis ..
qed

section \<open>The contract of a broadcast\<close>

text \<open>
  Both broadcasts remove exactly the peers they report, which are those whose channel they found
  closed, report a new host when the host was among them, and have offered every remaining
  client their message.
\<close>

locale pruning_broadcast =
  fixes w :: world
    and bc :: "room_ctx \<Rightarrow> (peer_id list \<times> peer_id option) \<times> room_ctx"
    and msg :: "room \<Rightarrow> server_message"
  assumes bc_pruned: "room_wf r \<Longrightarrow> bc (r, lg) = ((dead, nh), (r', lg')) \<Longrightarrow>
      pruned (set dead) r r' \<and> elected None (set dead) r r' nh"
    and bc_log: "room_wf r \<Longrightarrow> bc (r, lg) = ((dead, nh), (r', lg')) \<Longrightarrow>
      \<exists>ex. lg' = lg @ ex \<and> log_msgs ex \<subseteq> {msg r} \<and> offered_all (msg r) ex r' \<and>
        sends_lose w r lg ex (set dead)"
begin

lemma bc_host:
  assumes "room_wf r" and "bc (r, lg) = ((dead, nh), (r', lg'))" and "host_peer_id r \<in> client_ids r"
  shows "client_ids r' = {} \<or> host_peer_id r' \<in> client_ids r'"
proof -
  from assms bc_pruned have p: "pruned (set dead) r r'" by blast
  then show ?thesis
    using pruned_client_ids [OF p] assms(3)
    by (cases "host_peer_id r \<in> set dead") (auto simp: pruned_def split: if_splits)
qed

end

lemma wf_clients_entries: "room_wf r \<Longrightarrow> distinct (map fst (table (clients r))) \<and> distinct (map fst (table (pending r)))"
  by (simp add: room_wf_def hm_ok_def hm_keys_def)

lemma fst_table: "fst ` set (table m) = dom (hm_get m)"
  by (metis hm_keys_def set_hm_keys set_map)

lemma broadcast_contract: "pruning_broadcast w (broadcast_retain_connected w m) (\<lambda>_. m)"
proof unfold_locales
  fix r :: room and lg dead nh r' lg'
  assume wf: "room_wf r" and run: "broadcast_retain_connected w m (r, lg) = ((dead, nh), (r', lg'))"
  then have s: "send_each w m (table (clients r)) lg = (dead, lg')"
    and d: "drop_dead remove_client dead r None = (r', nh)"
    by (auto simp: broadcast_retain_connected_def split: prod.splits)
  from send_each_dead_distinct [OF s] wf_clients_entries [OF wf]
  have sub: "distinct dead" "set dead \<subseteq> client_ids r"
    by (auto simp: client_ids_def fst_table)
  show p: "pruned (set dead) r r' \<and> elected None (set dead) r r' nh"
    by (rule rc.drop_dead_pruned [OF wf sub(2,1) d])
  from send_each_log [OF s] obtain ex where ex: "lg' = lg @ ex" "sent_each w m (table (clients r)) lg ex dead" by blast
  have "offered_all m ex r'"
    using p sent_each_offered [OF ex(2)] hm_entries [OF room_wfD(1) [OF wf]]
    by (auto simp: offered_all_def pruned_def restrict_map_def split: if_splits)
  with ex sent_each_msgs [OF ex(2)] sent_each_lose [OF ex(2) member_clients [OF wf]]
  show "\<exists>ex. lg' = lg @ ex \<and> log_msgs ex \<subseteq> {m} \<and> offered_all m ex r' \<and> sends_lose w r lg ex (set dead)"
    by blast
qed

lemma state_update_contract:
  "pruning_broadcast w (broadcast_state_update_retain_connected w) (\<lambda>r. StateUpdate (state r))"
proof unfold_locales
  fix r :: room and lg dead nh r' lg'
  let ?m = "StateUpdate (state r)"
  assume wf: "room_wf r"
    and run: "broadcast_state_update_retain_connected w (r, lg) = ((dead, nh), (r', lg'))"
  then obtain d1 lg1 d2 where s1: "send_each w ?m (table (clients r)) lg = (d1, lg1)"
    and s2: "send_each w ?m (table (pending r)) lg1 = (d2, lg')" and dd: "dead = d1 @ d2"
    and d: "drop_dead remove_member dead r None = (r', nh)"
    by (auto simp: broadcast_state_update_retain_connected_def Let_def split: prod.splits)
  have "distinct d1" "set d1 \<subseteq> client_ids r" "distinct d2" "set d2 \<subseteq> pending_ids r"
    using send_each_dead_distinct [OF s1] send_each_dead_distinct [OF s2] wf_clients_entries [OF wf]
    by (auto simp: client_ids_def pending_ids_def fst_table)
  then have sub: "distinct dead" "set dead \<subseteq> members r"
    using room_wfD(3) [OF wf] by (auto simp: dd members_def)
  show p: "pruned (set dead) r r' \<and> elected None (set dead) r r' nh"
    by (rule rmb.drop_dead_pruned [OF wf sub(2,1) d])
  from send_each_log [OF s1] obtain e1 where e1: "lg1 = lg @ e1" "sent_each w ?m (table (clients r)) lg e1 d1" by blast
  from send_each_log [OF s2] obtain e2 where e2: "lg' = lg1 @ e2" "sent_each w ?m (table (pending r)) lg1 e2 d2" by blast
  have "sends_lose w r lg (e1 @ e2) (set dead)"
    using sends_lose_append [OF sent_each_lose [OF e1(2) member_clients [OF wf]]
        sent_each_lose [OF e2(2) [unfolded e1(1)] member_pending [OF wf]] map_le_refl]
    by (simp add: dd)
  moreover have "offered_all ?m e1 r'"
    using p sent_each_offered [OF e1(2)] hm_entries [OF room_wfD(1) [OF wf]]
    by (auto simp: offered_all_def pruned_def restrict_map_def dd split: if_splits)
  then have "offered_all ?m (e1 @ e2) r'" by (auto intro: offered_all_appendI)
  moreover have "log_msgs (e1 @ e2) \<subseteq> {?m}" using sent_each_msgs [OF e1(2)] sent_each_msgs [OF e2(2)] by simp
  moreover have "lg' = lg @ (e1 @ e2)" using e1(1) e2(1) by simp
  ultimately show "\<exists>ex. lg' = lg @ ex \<and> log_msgs ex \<subseteq> {?m} \<and> offered_all ?m ex r' \<and> sends_lose w r lg ex (set dead)"
    by blast
qed

interpretation bc: pruning_broadcast w "broadcast_retain_connected w m" "\<lambda>_. m"
  by (rule broadcast_contract)

interpretation su: pruning_broadcast w "broadcast_state_update_retain_connected w" "\<lambda>r. StateUpdate (state r)"
  by (rule state_update_contract)

section \<open>Sending to one peer\<close>

lemma send_to_pruned:
  assumes wf: "room_wf r" and run: "send_to_retain_connected w pid m (r, lg) = (ok, (r', lg'))"
  shows "pruned (if ok then {} else {pid}) r r'"
proof (cases ok)
  case True
  with run have "r' = r"
    by (auto simp: send_to_retain_connected_def Let_def split: option.splits prod.splits if_splits)
  with True wf show ?thesis by (simp add: pruned_refl)
next
  case False
  with run have mem: "pid \<in> members r" and r': "r' = fst (fix_host pid (remove_member pid r) None)"
    by (auto simp: send_to_retain_connected_def Let_def members_def client_ids_def pending_ids_def
        split: option.splits prod.splits if_splits)
  obtain nh where "fix_host pid (remove_member pid r) None = (r', nh)" using r' by (metis fst_conv surj_pair)
  from rmb.fix_host_pruned [OF wf mem this] False show ?thesis by simp
qed

end
