(* ===== verification/Prune.thy ===== *)
theory Prune
  imports Broadcast
begin

text \<open>
  \<open>broadcast_and_prune\<close> and \<open>broadcast_state_update_and_prune\<close> of \<open>server/mod.rs\<close>: a broadcast,
  then rounds of \<open>PeerLeft\<close> for the peers it lost until a round loses nobody, then the
  announcement of a new host.  The \<open>while\<close> loop ends because a round that loses peers makes
  the client table smaller; that is the termination proof of \<open>prune_loop\<close>.
\<close>

section \<open>The loop\<close>

text \<open>One round: \<open>for pid in dead { .. PeerLeft .. }\<close>, collecting \<open>next_dead\<close> and \<open>new_host\<close>.\<close>

fun notify_left ::
  "world \<Rightarrow> peer_id list \<Rightarrow> peer_id option \<Rightarrow> room_ctx \<Rightarrow> (peer_id list \<times> peer_id option) \<times> room_ctx" where
  "notify_left w [] nh ctx = (([], nh), ctx)"
| "notify_left w (pid # ps) nh ctx =
     (let ((d, h), ctx1) = broadcast_retain_connected w (PeerLeft pid) ctx;
          ((next_dead, nh'), ctx2) = notify_left w ps (if h \<noteq> None then h else nh) ctx1
      in ((d @ next_dead, nh'), ctx2))"

lemma table_drop_dead:
  "drop_dead remove_client ps r nh = (r', nh') \<Longrightarrow>
   table (clients r') = filter (\<lambda>e. fst e \<notin> set ps) (table (clients r))"
proof (induction ps arbitrary: r nh)
  case (Cons p ps)
  obtain r1 nh1 where fh: "fix_host p (remove_client p r) nh = (r1, nh1)" by fastforce
  then have "table (clients r1) = filter (\<lambda>e. fst e \<noteq> p) (table (clients r))"
    by (auto simp: fix_host_def Let_def remove_client_def hm_remove_def AList.delete_eq
        intro!: filter_cong split: if_splits)
  with Cons.IH [of r1 nh1] Cons.prems fh show ?case
    by (auto simp: intro: filter_cong)
qed simp

lemma broadcast_shrinks:
  assumes "broadcast_retain_connected w m ctx = ((dead, nh), ctx')"
  shows "hm_len (clients (fst ctx')) + length dead \<le> hm_len (clients (fst ctx))"
proof -
  obtain r lg r' lg' where ctx: "ctx = (r, lg)" "ctx' = (r', lg')" by fastforce
  with assms have s: "send_each w m (table (clients r)) lg = (dead, lg')"
    and d: "drop_dead remove_client dead r None = (r', nh)"
    by (auto simp: broadcast_retain_connected_def split: prod.splits)
  let ?t = "table (clients r)"
  have "mset dead = mset (filter (\<lambda>k. k \<in> set dead) dead)"
    by (rule arg_cong [of _ _ mset]) (simp add: filter_id_conv)
  also have "\<dots> = filter_mset (\<lambda>k. k \<in> set dead) (mset dead)" by (rule mset_filter)
  also have "\<dots> \<subseteq># filter_mset (\<lambda>k. k \<in> set dead) (mset (map fst ?t))"
    using send_each_dead [OF s] by (rule multiset_filter_mono)
  finally have "size (mset dead) \<le> size (filter_mset (\<lambda>k. k \<in> set dead) (mset (map fst ?t)))"
    by (rule size_mset_mono)
  then have "length dead \<le> length (filter (\<lambda>k. k \<in> set dead) (map fst ?t))"
    by (simp only: mset_filter [symmetric] size_mset)
  also have "\<dots> = length (filter (\<lambda>e. fst e \<in> set dead) ?t)"
    by (simp add: filter_map comp_def)
  finally have "length dead + length (filter (\<lambda>e. fst e \<notin> set dead) ?t) \<le> length ?t"
    using sum_length_filter_compl [of "\<lambda>e. fst e \<in> set dead" ?t] by simp
  with table_drop_dead [OF d] ctx show ?thesis by (simp add: hm_len_def)
qed

lemma notify_left_shrinks:
  "notify_left w ps nh ctx = ((next_dead, nh'), ctx') \<Longrightarrow>
   hm_len (clients (fst ctx')) + length next_dead \<le> hm_len (clients (fst ctx))"
proof (induction ps arbitrary: nh ctx next_dead)
  case (Cons p ps)
  obtain d h ctx1 where b: "broadcast_retain_connected w (PeerLeft p) ctx = ((d, h), ctx1)"
    by (metis surj_pair)
  obtain nd where n: "notify_left w ps (if h \<noteq> None then h else nh) ctx1 = ((nd, nh'), ctx')"
    and "next_dead = d @ nd"
    using Cons.prems b by (auto split: prod.splits)
  with Cons.IH [OF n] broadcast_shrinks [OF b] show ?case by simp
qed simp

text \<open>\<open>while !dead.is_empty() { .. }\<close>\<close>

function prune_loop ::
  "world \<Rightarrow> peer_id list \<Rightarrow> peer_id option \<Rightarrow> room_ctx \<Rightarrow> peer_id option \<times> room_ctx" where
  "prune_loop w dead nh ctx =
     (if dead = [] then (nh, ctx)
      else let (found, ctx') = notify_left w dead nh ctx; (next_dead, nh') = found
           in prune_loop w next_dead nh' ctx')"
  by pat_completeness auto
termination
proof (relation "measure (\<lambda>(w, dead, nh, ctx). 2 * hm_len (clients (fst ctx)) + length dead)")
  fix w dead nh ctx x found ctx' found' next_dead nh'
  assume ne: "dead \<noteq> []" and "x = notify_left w dead nh ctx"
    and "(found, ctx') = x" "found' = found" "(next_dead, nh') = found'"
  then have "notify_left w dead nh ctx = ((next_dead, nh'), ctx')" by simp
  from notify_left_shrinks [OF this] ne
  show "((w, next_dead, nh', ctx'), w, dead, nh, ctx)
     \<in> measure (\<lambda>(w, dead, nh, ctx). 2 * hm_len (clients (fst ctx)) + length dead)"
    by (cases dead) auto
qed simp

declare prune_loop.simps [simp del]

lemma prune_loop_Nil [simp]: "prune_loop w [] nh ctx = (nh, ctx)"
  by (simp add: prune_loop.simps)

lemma prune_loop_Cons [simp]:
  "prune_loop w (pid # ps) nh ctx =
     (let ((next_dead, nh'), ctx') = notify_left w (pid # ps) nh ctx in prune_loop w next_dead nh' ctx')"
  by (simp add: prune_loop.simps [of w "pid # ps"] Let_def split: prod.split)

definition announce_host :: "world \<Rightarrow> peer_id option \<times> room_ctx \<Rightarrow> room_ctx" where
  "announce_host w = (\<lambda>(nh, ctx). case nh of
       None \<Rightarrow> ctx
     | Some h \<Rightarrow> snd (broadcast_retain_connected w (RoomEvent (HostTransferred h)) ctx))"

definition prune_and_announce :: "world \<Rightarrow> (peer_id list \<times> peer_id option) \<times> room_ctx \<Rightarrow> room_ctx" where
  "prune_and_announce w = (\<lambda>((dead, nh), ctx). announce_host w (prune_loop w dead nh ctx))"

definition broadcast_and_prune :: "world \<Rightarrow> server_message \<Rightarrow> room_ctx \<Rightarrow> room_ctx" where
  "broadcast_and_prune w m ctx = prune_and_announce w (broadcast_retain_connected w m ctx)"

definition broadcast_state_update_and_prune :: "world \<Rightarrow> room_ctx \<Rightarrow> room_ctx" where
  "broadcast_state_update_and_prune w ctx =
     prune_and_announce w (broadcast_state_update_retain_connected w ctx)"

section \<open>What the loop leaves\<close>

text \<open>
  \<open>tracked nh0 D r r' nh\<close>: \<open>new_host\<close> still holds \<open>nh0\<close> if the host is not among the removed
  peers \<open>D\<close>; otherwise it holds the present host as long as a client is left.
\<close>

definition tracked :: "peer_id option \<Rightarrow> peer_id set \<Rightarrow> room \<Rightarrow> room \<Rightarrow> peer_id option \<Rightarrow> bool" where
  "tracked nh0 D r r' nh \<longleftrightarrow>
     (host_peer_id r \<notin> D \<longrightarrow> nh = nh0) \<and>
     (host_peer_id r \<in> D \<and> client_ids r' \<noteq> {} \<longrightarrow> nh = Some (host_peer_id r'))"

lemma elected_tracked:
  "elected None D r r' h \<Longrightarrow> tracked nh0 D r r' (if h \<noteq> None then h else nh0)"
  by (auto simp: elected_def tracked_def split: if_splits)

lemma tracked_refl: "tracked nh {} r r nh"
  by (simp add: tracked_def)

lemma tracked_trans:
  assumes e: "tracked nh0 D r r1 nh1" and p: "pruned D r r1"
    and f: "tracked nh1 E r1 r' nh" and q: "pruned E r1 r'"
  shows "tracked nh0 (D \<union> E) r r' nh"
proof (cases "host_peer_id r1 \<in> E")
  case True
  with p have "host_peer_id r \<in> D \<union> E" by (cases "host_peer_id r \<in> D") (auto simp: pruned_def)
  with True f show ?thesis by (simp add: tracked_def)
next
  case False
  with q have h: "host_peer_id r' = host_peer_id r1" by (simp add: pruned_def)
  from False f have nh: "nh = nh1" by (simp add: tracked_def)
  have sub: "client_ids r' \<subseteq> client_ids r1" using pruned_client_ids [OF q] by auto
  show ?thesis
  proof (cases "host_peer_id r \<in> D")
    case True
    with e h nh sub show ?thesis by (auto simp: tracked_def)
  next
    case D: False
    then have "host_peer_id r1 = host_peer_id r" using p by (simp add: pruned_def)
    with D False e nh show ?thesis by (simp add: tracked_def)
  qed
qed

lemma notify_left_result:
  assumes "room_wf r" and "notify_left w ps nh0 (r, lg) = ((next_dead, nh), (r', lg'))"
  shows "\<exists>ex. pruned (set next_dead) r r' \<and> tracked nh0 (set next_dead) r r' nh \<and> lg' = lg @ ex \<and>
    log_msgs ex \<subseteq> PeerLeft ` set ps \<and> (\<forall>pid \<in> set ps. offered_all (PeerLeft pid) ex r') \<and>
    sends_lose w r lg ex (set next_dead)"
  using assms
proof (induction ps arbitrary: r lg nh0 next_dead)
  case Nil
  then show ?case by (auto simp: pruned_refl tracked_refl)
next
  case (Cons p ps)
  obtain d h r1 lg1 where b: "broadcast_retain_connected w (PeerLeft p) (r, lg) = ((d, h), (r1, lg1))"
    by (metis surj_pair)
  let ?nh = "if h \<noteq> None then h else nh0"
  obtain nd where n: "notify_left w ps ?nh (r1, lg1) = ((nd, nh), (r', lg'))" and next_dead: "next_dead = d @ nd"
    using Cons.prems(2) b by (auto split: prod.splits)
  from bc.bc_pruned [OF Cons.prems(1) b] have p1: "pruned (set d) r r1"
    and t1: "tracked nh0 (set d) r r1 ?nh"
    using elected_tracked by (blast, simp)
  from bc.bc_log [OF Cons.prems(1) b] obtain e1 where e1: "lg1 = lg @ e1" "log_msgs e1 \<subseteq> {PeerLeft p}"
    "offered_all (PeerLeft p) e1 r1" "sends_lose w r lg e1 (set d)" by blast
  from Cons.IH [OF pruned_wf [OF p1] n] obtain e2 where p2: "pruned (set nd) r1 r'"
    and t2: "tracked ?nh (set nd) r1 r' nh" and e2: "lg' = lg1 @ e2" "log_msgs e2 \<subseteq> PeerLeft ` set ps"
    "\<forall>pid \<in> set ps. offered_all (PeerLeft pid) e2 r'" "sends_lose w r1 lg1 e2 (set nd)" by blast
  have "pruned (set next_dead) r r'"
    using pruned_trans [OF p1 p2 Cons.prems(1)] by (simp add: next_dead)
  moreover have "tracked nh0 (set next_dead) r r' nh"
    using tracked_trans [OF t1 p1 t2 p2] by (simp add: next_dead)
  moreover have "\<forall>pid \<in> set (p # ps). offered_all (PeerLeft pid) (e1 @ e2) r'"
    using e2(3) offered_all_pruned [OF e1(3) p2] by (auto intro: offered_all_appendI)
  moreover have "sends_lose w r lg (e1 @ e2) (set next_dead)"
    using sends_lose_pruned [OF e1(4) e2(4) [unfolded e1(1)] p1] by (simp add: next_dead)
  moreover have "log_msgs (e1 @ e2) \<subseteq> PeerLeft ` set (p # ps)" using e1(2) e2(2) by auto
  ultimately show ?case using e1(1) e2(1) by (intro exI [of _ "e1 @ e2"]) simp
qed

lemma prune_loop_result:
  assumes "room_wf r" and "prune_loop w dead nh0 (r, lg) = (nh, (r', lg'))"
  shows "\<exists>E ex. pruned E r r' \<and> tracked nh0 E r r' nh \<and> lg' = lg @ ex \<and>
    log_msgs ex \<subseteq> PeerLeft ` (set dead \<union> E) \<and>
    (\<forall>pid \<in> set dead \<union> E. offered_all (PeerLeft pid) ex r') \<and> sends_lose w r lg ex E"
  using assms
proof (induction w dead nh0 "(r, lg)" arbitrary: r lg rule: prune_loop.induct)
  case (1 w dead nh0 r lg)
  show ?case
  proof (cases "dead = []")
    case True
    with "1.prems" have "nh = nh0" "r' = r" "lg' = lg" by (simp_all add: prune_loop.simps)
    with True "1.prems"(1) show ?thesis
      by (intro exI [of _ "{}"] exI [of _ "[]"]) (simp add: pruned_refl tracked_refl)
  next
    case False
    obtain nd nh1 r1 lg1 where n: "notify_left w dead nh0 (r, lg) = ((nd, nh1), (r1, lg1))"
      by (metis surj_pair)
    with False "1.prems"(2) have rest: "prune_loop w nd nh1 (r1, lg1) = (nh, (r', lg'))"
      by (simp add: prune_loop.simps [of w dead])
    from notify_left_result [OF "1.prems"(1) n] obtain e1 where p1: "pruned (set nd) r r1"
      and t1: "tracked nh0 (set nd) r r1 nh1" and e1: "lg1 = lg @ e1"
      "log_msgs e1 \<subseteq> PeerLeft ` set dead" "\<forall>pid \<in> set dead. offered_all (PeerLeft pid) e1 r1"
      "sends_lose w r lg e1 (set nd)" by blast
    from "1.hyps" [OF False n [symmetric] _ _ _ pruned_wf [OF p1] rest]
    obtain E e2 where p2: "pruned E r1 r'" and t2: "tracked nh1 E r1 r' nh" and e2: "lg' = lg1 @ e2"
      "log_msgs e2 \<subseteq> PeerLeft ` (set nd \<union> E)"
      "\<forall>pid \<in> set nd \<union> E. offered_all (PeerLeft pid) e2 r'" "sends_lose w r1 lg1 e2 E" by blast
    have "pruned (set nd \<union> E) r r'" by (rule pruned_trans [OF p1 p2 "1.prems"(1)])
    moreover have "tracked nh0 (set nd \<union> E) r r' nh" by (rule tracked_trans [OF t1 p1 t2 p2])
    moreover have "\<forall>pid \<in> set dead \<union> (set nd \<union> E). offered_all (PeerLeft pid) (e1 @ e2) r'"
      using e1(3) e2(3) offered_all_pruned [OF _ p2] by (auto intro: offered_all_appendI)
    moreover have "log_msgs (e1 @ e2) \<subseteq> PeerLeft ` (set dead \<union> (set nd \<union> E))"
      using e1(2) e2(2) by auto
    moreover have "sends_lose w r lg (e1 @ e2) (set nd \<union> E)"
      by (rule sends_lose_pruned [OF e1(4) e2(4) [unfolded e1(1)] p1])
    ultimately show ?thesis using e1(1) e2(1)
      by (intro exI [of _ "set nd \<union> E"] exI [of _ "e1 @ e2"]) simp
  qed
qed

section \<open>A broadcast followed by the loop\<close>

text \<open>
  \<open>settled w m r lg r' lg'\<close> is what a pruning broadcast of \<open>m\<close> promises.  Gone are exactly the peers whose
  channel a send found closed: \<open>D\<close>, found before the last announcement, of whom every remaining client
  was offered a \<open>PeerLeft\<close>, and \<open>E\<close>, found by that announcement, which nobody is told of.  The
  announcement is made only if the host was in \<open>D\<close>, and names the host that the room had at that point.
\<close>

definition settled :: "world \<Rightarrow> server_message \<Rightarrow> room \<Rightarrow> send_log \<Rightarrow> room \<Rightarrow> send_log \<Rightarrow> bool" where
  "settled w m r lg r' lg' \<longleftrightarrow>
     (\<exists>D E ex. pruned (D \<union> E) r r' \<and> lg' = lg @ ex \<and> sends_lose w r lg ex (D \<union> E) \<and> offered_all m ex r' \<and>
        (\<forall>pid \<in> D. offered_all (PeerLeft pid) ex r') \<and>
        log_msgs ex \<subseteq> {m} \<union> PeerLeft ` D \<union> range (\<lambda>h. RoomEvent (HostTransferred h)) \<and>
        (host_peer_id r \<notin> D \<longrightarrow> E = {} \<and> log_msgs ex \<subseteq> {m} \<union> PeerLeft ` D) \<and>
        (host_peer_id r \<in> D \<and> client_ids r' \<noteq> {} \<longrightarrow>
           (\<exists>h. offered_all (RoomEvent (HostTransferred h)) ex r' \<and> (h = host_peer_id r' \<or> h \<in> E))))"

context pruning_broadcast
begin

lemma and_prune_settled:
  assumes wf: "room_wf r" and run: "prune_and_announce w (bc (r, lg)) = (r', lg')"
  shows "settled w (msg r) r lg r' lg'"
proof -
  obtain dead nh0 r1 lg1 where b: "bc (r, lg) = ((dead, nh0), (r1, lg1))" by (metis surj_pair)
  obtain nh r2 lg2 where l: "prune_loop w dead nh0 (r1, lg1) = (nh, (r2, lg2))" by (metis surj_pair)
  from bc_pruned [OF wf b] have p1: "pruned (set dead) r r1"
    and "tracked None (set dead) r r1 (if nh0 \<noteq> None then nh0 else None)"
    using elected_tracked by (blast, blast)
  then have t1: "tracked None (set dead) r r1 nh0" by (simp split: if_splits)
  from bc_log [OF wf b] obtain e1 where e1: "lg1 = lg @ e1" "log_msgs e1 \<subseteq> {msg r}" "offered_all (msg r) e1 r1"
    "sends_lose w r lg e1 (set dead)" by blast
  from prune_loop_result [OF pruned_wf [OF p1] l] obtain E e2 where p2: "pruned E r1 r2"
    and t2: "tracked nh0 E r1 r2 nh" and e2: "lg2 = lg1 @ e2" "log_msgs e2 \<subseteq> PeerLeft ` (set dead \<union> E)"
    "\<forall>pid \<in> set dead \<union> E. offered_all (PeerLeft pid) e2 r2" "sends_lose w r1 lg1 e2 E" by blast
  let ?D = "set dead \<union> E"
  have lose: "sends_lose w r lg (e1 @ e2) ?D" by (rule sends_lose_pruned [OF e1(4) e2(4) [unfolded e1(1)] p1])
  have p: "pruned ?D r r2" by (rule pruned_trans [OF p1 p2 wf])
  have t: "tracked None ?D r r2 nh" by (rule tracked_trans [OF t1 p1 t2 p2])
  have m: "offered_all (msg r) e1 r2" by (rule offered_all_pruned [OF e1(3) p2])
  from run b l have fin: "announce_host w (nh, (r2, lg2)) = (r', lg')" by (simp add: prune_and_announce_def)
  show ?thesis
  proof (cases nh)
    case None
    then have "r' = r2" "lg' = lg2" using fin by (simp_all add: announce_host_def)
    moreover have "\<not> (host_peer_id r \<in> ?D \<and> client_ids r2 \<noteq> {})" using t None by (auto simp: tracked_def)
    ultimately show ?thesis unfolding settled_def
      using p m e1 e2 lose
      by (intro exI [of _ ?D] exI [of _ "{}"] exI [of _ "e1 @ e2"]) (auto intro: offered_all_appendI)
  next
    case (Some h)
    obtain d n r3 lg3 where b3:
      "broadcast_retain_connected w (RoomEvent (HostTransferred h)) (r2, lg2) = ((d, n), (r3, lg3))"
      by (metis surj_pair)
    with fin Some have "r3 = r'" "lg3 = lg'" by (simp_all add: announce_host_def)
    with b3 have a: "broadcast_retain_connected w (RoomEvent (HostTransferred h)) (r2, lg2) = ((d, n), (r', lg'))"
      by simp
    from bc.bc_pruned [OF pruned_wf [OF p] a] have p3: "pruned (set d) r2 r'" by blast
    from bc.bc_log [OF pruned_wf [OF p] a] obtain e3 where e3: "lg' = lg2 @ e3"
      "log_msgs e3 \<subseteq> {RoomEvent (HostTransferred h)}" "offered_all (RoomEvent (HostTransferred h)) e3 r'"
      "sends_lose w r2 lg2 e3 (set d)" by blast
    have hD: "host_peer_id r \<in> ?D" using t Some by (auto simp: tracked_def)
    let ?ex = "e1 @ e2 @ e3"
    have last: "\<exists>h. offered_all (RoomEvent (HostTransferred h)) ?ex r' \<and> (h = host_peer_id r' \<or> h \<in> set d)"
      if "client_ids r' \<noteq> {}"
    proof -
      have "client_ids r2 \<noteq> {}" using that pruned_client_ids [OF p3] by auto
      then have "h = host_peer_id r2" using t hD Some by (auto simp: tracked_def)
      then have "h = host_peer_id r' \<or> h \<in> set d" using p3 by (auto simp: pruned_def)
      moreover have "offered_all (RoomEvent (HostTransferred h)) ?ex r'"
        using e3(3) by (intro offered_all_appendI disjI2)
      ultimately show ?thesis by blast
    qed
    have all: "pruned (?D \<union> set d) r r'" by (rule pruned_trans [OF p p3 wf])
    have log: "lg' = lg @ ?ex" using e1(1) e2(1) e3(1) by simp
    have told: "offered_all (msg r) ?ex r'" using offered_all_pruned [OF m p3] by (intro offered_all_appendI disjI1)
    have left: "offered_all (PeerLeft pid) ?ex r'" if "pid \<in> ?D" for pid
      using offered_all_pruned [OF e2(3) [rule_format, OF that] p3]
      by (intro offered_all_appendI [of _ e1] disjI2 offered_all_appendI [of _ e2] disjI1)
    have "sends_lose w r lg ((e1 @ e2) @ e3) (?D \<union> set d)"
      by (rule sends_lose_pruned [OF lose _ p]) (use e3(4) e1(1) e2(1) in simp)
    then have lost: "sends_lose w r lg ?ex (?D \<union> set d)" by simp
    have msgs: "log_msgs ?ex \<subseteq> {msg r} \<union> PeerLeft ` ?D \<union> range (\<lambda>h. RoomEvent (HostTransferred h))"
      using e1(2) e2(2) e3(2) by auto
    show ?thesis unfolding settled_def
      by (rule exI [of _ ?D], rule exI [of _ "set d"], rule exI [of _ ?ex])
        (intro conjI all log lost told msgs, use left hD last in simp_all)
  qed
qed

end

lemma broadcast_and_prune_settled:
  "room_wf r \<Longrightarrow> broadcast_and_prune w m (r, lg) = (r', lg') \<Longrightarrow> settled w m r lg r' lg'"
  unfolding broadcast_and_prune_def by (rule bc.and_prune_settled)

lemma broadcast_state_update_and_prune_settled:
  "room_wf r \<Longrightarrow> broadcast_state_update_and_prune w (r, lg) = (r', lg') \<Longrightarrow>
   settled w (StateUpdate (state r)) r lg r' lg'"
  unfolding broadcast_state_update_and_prune_def by (rule su.and_prune_settled)

text \<open>The parts of \<open>settled\<close> the callers use.\<close>

lemma settled_pruned: "settled w m r lg r' lg' \<Longrightarrow> \<exists>D. pruned D r r'"
  by (auto simp: settled_def)

lemma settled_log:
  "settled w m r lg r' lg' \<Longrightarrow>
   \<exists>ex. lg' = lg @ ex \<and> log_msgs ex \<subseteq> {m} \<union> range PeerLeft \<union> range (\<lambda>h. RoomEvent (HostTransferred h))"
  unfolding settled_def by blast

end
