(* ===== verification/Pool.thy ===== *)
theory Pool
  imports Load Prune
begin

text \<open>
  \<open>room/pool.rs\<close> and the store it lives in.  A room is shared (\<open>Arc<Mutex<Room>>\<close>): the
  store maps addresses to rooms, a pool maps the case-folded room code to the address, and a
  handler that has looked an address up keeps it even when the pool drops the entry.
  \<open>locked\<close> holds the rooms whose mutex another task has at the moment.
\<close>

section \<open>State\<close>

type_synonym addr = nat

record room_pool =
  pool_app_key :: string
  rooms :: "string \<rightharpoonup> addr"

record server =
  heap :: "addr \<Rightarrow> room"
  next_addr :: addr
  registry :: "string \<rightharpoonup> room_pool"
  cache :: app_cache
  fallback_counter :: u64
  rng_pos :: nat
  locked :: "addr set"
  sends :: send_log

text \<open>The server as \<open>run\<close> starts it; the contents of unallocated addresses never matter.\<close>

definition server_init :: "world \<Rightarrow> server" where
  "server_init w =
     \<lparr>heap = (\<lambda>_. Room_new w [] (RoomCode []) default_settings), next_addr = 0,
      registry = Map.empty, cache = Map.empty, fallback_counter = 0, rng_pos = 0,
      locked = {}, sends = []\<rparr>"

definition RoomPool_new :: "string \<Rightarrow> room_pool" where
  "RoomPool_new a = \<lparr>pool_app_key = a, rooms = Map.empty\<rparr>"

text \<open>Work on one room under its mutex.\<close>

definition with_room :: "addr \<Rightarrow> (room_ctx \<Rightarrow> room_ctx) \<Rightarrow> server \<Rightarrow> server" where
  "with_room a f s =
     (let (r, lg) = f (heap s a, sends s) in s\<lparr>heap := (heap s)(a := r), sends := lg\<rparr>)"

section \<open>Room codes\<close>

definition ROOM_CODE_LEN :: nat where "ROOM_CODE_LEN = 6"

definition ROOM_CODE_CHARS :: string where
  "ROOM_CODE_CHARS = ''ABCDEFGHJKLMNPQRSTUVWXYZ23456789''"

definition ROOM_CODE_GEN_RETRIES :: nat where "ROOM_CODE_GEN_RETRIES = 20"

text \<open>The key under which a code is found: equality of \<open>UniCase\<close> is equality of the folded string.\<close>

definition code_key :: "world \<Rightarrow> room_code \<Rightarrow> string" where
  "code_key w c = w_case_fold w (code_str c)"

definition get_room :: "world \<Rightarrow> room_pool \<Rightarrow> room_code \<Rightarrow> addr option" where
  "get_room w p c = rooms p (code_key w c)"

definition try_insert_new_room ::
  "world \<Rightarrow> room_code \<Rightarrow> room_settings \<Rightarrow> room_pool \<times> server \<Rightarrow> (room_code \<times> addr) option \<times> room_pool \<times> server" where
  "try_insert_new_room w c st = (\<lambda>(p, s).
     case rooms p (code_key w c) of
       Some _ \<Rightarrow> (None, p, s)
     | None \<Rightarrow>
         let a = next_addr s; r = Room_new w (pool_app_key p) c st
         in (Some (c, a), p\<lparr>rooms := (rooms p)(code_key w c \<mapsto> a)\<rparr>,
             s\<lparr>heap := (heap s)(a := r), next_addr := Suc a\<rparr>))"

text \<open>Six draws from the alphabet.\<close>

definition random_code :: "world \<Rightarrow> server \<Rightarrow> room_code \<times> server" where
  "random_code w s =
     (RoomCode (map (\<lambda>i. ROOM_CODE_CHARS ! w_gen_range w (rng_pos s + i) (length ROOM_CODE_CHARS))
        [0..<ROOM_CODE_LEN]),
      s\<lparr>rng_pos := rng_pos s + ROOM_CODE_LEN\<rparr>)"

fun try_random_codes ::
  "nat \<Rightarrow> world \<Rightarrow> room_settings \<Rightarrow> room_pool \<times> server \<Rightarrow> (room_code \<times> addr) option \<times> room_pool \<times> server" where
  "try_random_codes 0 w st (p, s) = (None, p, s)"
| "try_random_codes (Suc n) w st (p, s) =
     (let (c, s1) = random_code w s
      in case try_insert_new_room w c st (p, s1) of
           (Some x, p', s') \<Rightarrow> (Some x, p', s')
         | (None, p', s') \<Rightarrow> try_random_codes n w st (p', s'))"

definition fallback_code :: "u64 \<Rightarrow> room_code" where
  "fallback_code n = RoomCode (CHR ''R'' # dec_string (unat n))"

definition create_room ::
  "world \<Rightarrow> room_settings \<Rightarrow> string \<Rightarrow> room_pool \<times> server \<Rightarrow> (room_code \<times> addr) option \<times> room_pool \<times> server" where
  "create_room w st requested_code ps =
     (if requested_code \<noteq> [] then try_insert_new_room w (RoomCode requested_code) st ps
      else case try_random_codes ROOM_CODE_GEN_RETRIES w st ps of
             (Some x, p', s') \<Rightarrow> (Some x, p', s')
           | (None, p', s') \<Rightarrow>
               let n = fallback_counter s'
               in try_insert_new_room w (fallback_code n) st
                    (p', s'\<lparr>fallback_counter := fallback_counter s' + 1\<rparr>))"

section \<open>Removal and listing\<close>

definition room_is_empty :: "room \<Rightarrow> bool" where
  "room_is_empty r \<longleftrightarrow> hm_is_empty (clients r) \<and> hm_is_empty (pending r)"

definition remove_if_empty :: "world \<Rightarrow> room_code \<Rightarrow> server \<Rightarrow> room_pool \<Rightarrow> bool \<times> room_pool" where
  "remove_if_empty w c s p =
     (case rooms p (code_key w c) of
        None \<Rightarrow> (False, p)
      | Some a \<Rightarrow>
          if (if a \<in> locked s then False else room_is_empty (heap s a))
          then (True, p\<lparr>rooms := (rooms p)(code_key w c := None)\<rparr>)
          else (False, p))"

text \<open>\<open>self.rooms.iter()\<close>.\<close>

definition iter_rooms :: "world \<Rightarrow> room_pool \<Rightarrow> server \<Rightarrow> room list" where
  "iter_rooms w p s =
     map (\<lambda>k. heap s (the (rooms p k))) (w_iter w (pool_app_key p) (dom (rooms p)))"

definition room_and_player_counts :: "world \<Rightarrow> room_pool \<Rightarrow> server \<Rightarrow> nat \<times> nat" where
  "room_and_player_counts w p s =
     (card (dom (rooms p)),
      fold (\<lambda>r players. players + (hm_len (clients r) + hm_len (pending r))) (iter_rooms w p s) 0)"

definition room_entry :: "room \<Rightarrow> room_list_entry" where
  "room_entry r =
     \<lparr>rle_room_code = code r,
      rle_player_count = word_of_nat (hm_len (clients r) + hm_len (pending r)),
      rle_settings = (settings r)\<lparr>password := None\<rparr>\<rparr>"

definition list_public_rooms :: "world \<Rightarrow> room_pool \<Rightarrow> server \<Rightarrow> room_list_entry list" where
  "list_public_rooms w p s =
     map room_entry (filter (\<lambda>r. \<not> (\<not> is_public (settings r) \<or> is_full r)) (iter_rooms w p s))"

section \<open>Looking up and leaving a room (server/mod.rs)\<close>

definition lookup_room :: "world \<Rightarrow> server \<Rightarrow> string \<Rightarrow> room_code \<Rightarrow> addr option" where
  "lookup_room w s a c = Option.bind (registry s a) (\<lambda>p. get_room w p c)"

text \<open>The part of \<open>leave_room\<close> under the room's mutex.\<close>

definition leave_in_room :: "world \<Rightarrow> peer_id \<Rightarrow> room_ctx \<Rightarrow> room_ctx" where
  "leave_in_room w pid = (\<lambda>(r, lg).
     let (r1, lg1) = broadcast_and_prune w (PeerLeft pid) (remove_member pid r, lg)
     in if host_peer_id r1 = pid
        then (case hm_first_key (clients r1) of
                Some new_host \<Rightarrow>
                  broadcast_and_prune w (RoomEvent (HostTransferred new_host))
                    (r1\<lparr>host_peer_id := new_host\<rparr>, lg1)
              | None \<Rightarrow> (r1, lg1))
        else (r1, lg1))"

text \<open>The last step, outside the mutex: drop the entry of an empty room.\<close>

definition drop_if_empty :: "world \<Rightarrow> string \<Rightarrow> room_code \<Rightarrow> server \<Rightarrow> server" where
  "drop_if_empty w a c s =
     (case registry s a of
        Some p \<Rightarrow> s\<lparr>registry := (registry s)(a \<mapsto> snd (remove_if_empty w c s p))\<rparr>
      | None \<Rightarrow> s)"

definition leave_room :: "world \<Rightarrow> string \<Rightarrow> room_code \<Rightarrow> peer_id \<Rightarrow> server \<Rightarrow> server" where
  "leave_room w a c pid s =
     (case lookup_room w s a c of
        None \<Rightarrow> s
      | Some ad \<Rightarrow>
          let s1 = with_room ad (leave_in_room w pid) s
          in if room_is_empty (heap s1 ad) then drop_if_empty w a c s1 else s1)"

end
