(* ===== verification/Validation.thy ===== *)
theory Validation
  imports World
begin

text \<open>\<open>server/validation.rs\<close>: the length checks on the strings of a Hello.\<close>

definition MAX_APP_KEY_LEN :: nat where "MAX_APP_KEY_LEN = 256"
definition MAX_ROOM_CODE_LEN :: nat where "MAX_ROOM_CODE_LEN = 32"
definition MAX_CLIENT_HASH_LEN :: nat where "MAX_CLIENT_HASH_LEN = 256"
definition MAX_DISPLAY_NAME_LEN :: nat where "MAX_DISPLAY_NAME_LEN = 64"
definition MAX_AUTH_TOKEN_LEN :: nat where "MAX_AUTH_TOKEN_LEN = 256"
definition MAX_PASSWORD_LEN :: nat where "MAX_PASSWORD_LEN = 128"

lemmas len_limits = MAX_APP_KEY_LEN_def MAX_ROOM_CODE_LEN_def MAX_CLIENT_HASH_LEN_def
  MAX_DISPLAY_NAME_LEN_def MAX_AUTH_TOKEN_LEN_def MAX_PASSWORD_LEN_def

text \<open>\<open>if let Some(x) = o { if x.len() > limit { return Err(..) } }\<close>.\<close>

definition too_long :: "nat \<Rightarrow> string option \<Rightarrow> bool" where
  "too_long limit x = (case x of None \<Rightarrow> False | Some s \<Rightarrow> limit < length s)"

definition validate_hello ::
  "string \<Rightarrow> nat \<Rightarrow> string \<Rightarrow> string option \<Rightarrow> string option \<Rightarrow> string option \<Rightarrow> string + unit" where
  "validate_hello app_key room_code_len client_hash display_name auth_token pw =
     (if app_key = [] then Inl ''app_key is required''
      else if MAX_APP_KEY_LEN < length app_key then Inl ''app_key too long''
      else if MAX_ROOM_CODE_LEN < room_code_len then Inl ''room_code too long''
      else if client_hash = [] then Inl ''client_hash is required''
      else if MAX_CLIENT_HASH_LEN < length client_hash then Inl ''client_hash too long''
      else if too_long MAX_DISPLAY_NAME_LEN display_name then Inl ''display_name too long''
      else if too_long MAX_AUTH_TOKEN_LEN auth_token then Inl ''auth_token too long''
      else if too_long MAX_PASSWORD_LEN pw then Inl ''password too long''
      else Inr ())"

text \<open>What an accepted Hello satisfies.\<close>

definition hello_bounds ::
  "string \<Rightarrow> nat \<Rightarrow> string \<Rightarrow> string option \<Rightarrow> string option \<Rightarrow> string option \<Rightarrow> bool" where
  "hello_bounds app_key room_code_len client_hash display_name auth_token pw \<longleftrightarrow>
     1 \<le> length app_key \<and> length app_key \<le> 256 \<and> room_code_len \<le> 32 \<and>
     1 \<le> length client_hash \<and> length client_hash \<le> 256 \<and>
     (\<forall>d. display_name = Some d \<longrightarrow> length d \<le> 64) \<and>
     (\<forall>t. auth_token = Some t \<longrightarrow> length t \<le> 256) \<and>
     (\<forall>p. pw = Some p \<longrightarrow> length p \<le> 128)"

lemma validate_hello_iff:
  "validate_hello a n h d t p = Inr u \<longleftrightarrow> hello_bounds a n h d t p"
  by (auto simp: validate_hello_def hello_bounds_def len_limits too_long_def not_less Suc_le_eq
      split: if_splits option.splits)

end
