(* ===== verification/Dispatch.thy ===== *)
theory Dispatch
  imports Pool Validation
begin

text \<open>
  \<open>server/dispatch.rs\<close>: one function per client message, composed by \<open>dispatch\<close>.  A handler
  takes the server store and the connection's session and returns both with the messages for
  this client; messages for others go through their channels into the log.  A Hello is split
  where the source takes and releases locks: \<open>hello_admit\<close> (no lock), \<open>hello_room\<close> (the
  pool), \<open>hello_join\<close> (the room's mutex).
\<close>

record session =
  s_app_key :: string
  s_room_code :: room_code
  s_peer_id :: peer_id

section \<open>Hello\<close>

text \<open>\<open>auth_token.as_deref().unwrap_or("")\<close>.\<close>

definition or_empty :: "string option \<Rightarrow> string" where
  "or_empty x = (case x of None \<Rightarrow> [] | Some s \<Rightarrow> s)"

definition auth_ok :: "world \<Rightarrow> string option \<Rightarrow> bool" where
  "auth_ok w auth_token =
     (case w_app_secret w of
        None \<Rightarrow> True
      | Some secret \<Rightarrow> secret = [] \<or> or_empty auth_token = secret)"

definition hello_admit ::
  "world \<Rightarrow> string \<Rightarrow> room_code \<Rightarrow> string \<Rightarrow> string option \<Rightarrow> string option \<Rightarrow> string option
   \<Rightarrow> server \<Rightarrow> (string + unit) \<times> server" where
  "hello_admit w a rc h d t pw s =
     (case validate_hello a (length (code_str rc)) h d t pw of
        Inl e \<Rightarrow> (Inl e, s)
      | Inr _ \<Rightarrow>
          if \<not> auth_ok w t then (Inl ''authentication required'', s)
          else let (registered, c) = is_registered_app w a (cache s); s1 = s\<lparr>cache := c\<rparr>
               in if \<not> registered then (Inl ''unregistered game type'', s1) else (Inr (), s1))"

definition hello_room ::
  "world \<Rightarrow> string \<Rightarrow> room_code \<Rightarrow> server \<Rightarrow> (string + room_code \<times> addr) \<times> server" where
  "hello_room w a rc s0 =
     (let s = (case registry s0 a of
                 Some _ \<Rightarrow> s0
               | None \<Rightarrow> s0\<lparr>registry := (registry s0)(a \<mapsto> RoomPool_new a)\<rparr>)
      in case registry s a of
           None \<Rightarrow> (Inl ''internal error'', s)
         | Some p \<Rightarrow>
             if code_str rc = []
             then let (st, c) = default_room_settings_for_app w a (cache s)
                  in (case create_room w st [] (p, s\<lparr>cache := c\<rparr>) of
                        (Some (code', ad), p', s') \<Rightarrow>
                          (Inr (code', ad), s'\<lparr>registry := (registry s')(a \<mapsto> p')\<rparr>)
                      | (None, p', s') \<Rightarrow>
                          (Inl ''failed to create room'', s'\<lparr>registry := (registry s')(a \<mapsto> p')\<rparr>))
             else (case get_room w p rc of
                     Some ad \<Rightarrow> (Inr (rc, ad), s)
                   | None \<Rightarrow> (Inl ''room not found'', s)))"

text \<open>Tell every accepted client but the newcomer; the outcome of the sends is ignored.\<close>

fun notify_joined ::
  "world \<Rightarrow> peer_id \<Rightarrow> server_message \<Rightarrow> (peer_id \<times> client_info) list \<Rightarrow> send_log \<Rightarrow> send_log" where
  "notify_joined w pid m [] lg = lg"
| "notify_joined w pid m ((q, info) # es) lg =
     notify_joined w pid m es (if q \<noteq> pid then snd (try_send w (tx info) m lg) else lg)"

definition password_ok :: "room \<Rightarrow> string option \<Rightarrow> bool" where
  "password_ok r pw =
     (case password (settings r) of None \<Rightarrow> True | Some required \<Rightarrow> or_empty pw = required)"

text \<open>The first peer becomes the host; later ones are accepted at once or wait.\<close>

definition place_peer :: "peer_id \<Rightarrow> client_info \<Rightarrow> room \<Rightarrow> room" where
  "place_peer pid info r =
     (if room_is_empty r
      then r\<lparr>host_peer_id := pid, clients := hm_insert pid info (clients r)\<rparr>
      else if accept_required (settings r)
      then r\<lparr>pending := hm_insert pid info (pending r)\<rparr>
      else r\<lparr>clients := hm_insert pid info (clients r)\<rparr>)"

text \<open>From the assignment of a side to the notification of the others.\<close>

definition admit_peer ::
  "world \<Rightarrow> room_code \<Rightarrow> conn_id \<Rightarrow> string \<Rightarrow> string option \<Rightarrow> peer_id \<Rightarrow> room_ctx
   \<Rightarrow> (peer_id \<times> server_message) \<times> room_ctx" where
  "admit_peer w c my_tx h d pid = (\<lambda>(r, lg).
     let sd = next_available_side r;
         info = \<lparr>client_hash = ClientHash h, display_name = d, tx = my_tx, side = sd\<rparr>;
         r' = place_peer pid info r;
         initial_state = (if state r' = [] then None else Some (state r'));
         joined = Joined c pid (host_peer_id r') sd ((settings r')\<lparr>password := None\<rparr>) initial_state;
         lg' = (if \<not> accept_required (settings r') \<or> hm_contains_key (clients r') pid
                then notify_joined w pid (PeerJoined pid h d) (table (clients r')) lg
                else lg)
     in ((pid, joined), (r', lg')))"

text \<open>Under the room's mutex; \<open>Inr\<close> carries the new peer id and the Joined message.\<close>

definition join_room ::
  "world \<Rightarrow> room_code \<Rightarrow> conn_id \<Rightarrow> string \<Rightarrow> string option \<Rightarrow> string option \<Rightarrow> room_ctx
   \<Rightarrow> (string + peer_id \<times> server_message) \<times> room_ctx" where
  "join_room w c my_tx h d pw = (\<lambda>(r, lg).
     if is_banned r (ClientHash h) then (Inl ''banned from this room'', (r, lg))
     else if is_full r then (Inl ''room full'', (r, lg))
     else if \<not> password_ok r pw then (Inl ''invalid or missing room password'', (r, lg))
     else case alloc_peer_id r of
            (None, r1) \<Rightarrow> (Inl ''room full'', (r1, lg))
          | (Some pid, r1) \<Rightarrow>
              let (res, ctx) = admit_peer w c my_tx h d pid (r1, lg) in (Inr res, ctx))"

definition hello_join ::
  "world \<Rightarrow> string \<Rightarrow> room_code \<Rightarrow> addr \<Rightarrow> conn_id \<Rightarrow> string \<Rightarrow> string option \<Rightarrow> string option
   \<Rightarrow> server \<Rightarrow> server_message list \<times> session option \<times> server" where
  "hello_join w a c ad my_tx h d pw s =
     (let (res, (r, lg)) = join_room w c my_tx h d pw (heap s ad, sends s);
          s' = s\<lparr>heap := (heap s)(ad := r), sends := lg\<rparr>
      in case res of
           Inl e \<Rightarrow> ([Error e], None, s')
         | Inr (pid, joined) \<Rightarrow>
             ([joined], Some \<lparr>s_app_key = a, s_room_code = c, s_peer_id = pid\<rparr>, s'))"

text \<open>\<open>if let Some(old) = session.take() { leave_room(..) }\<close>\<close>

definition leave_old :: "world \<Rightarrow> session option \<Rightarrow> server \<Rightarrow> server" where
  "leave_old w session s =
     (case session of
        None \<Rightarrow> s
      | Some old \<Rightarrow> leave_room w (s_app_key old) (s_room_code old) (s_peer_id old) s)"

definition handle_hello ::
  "world \<Rightarrow> session option \<Rightarrow> conn_id \<Rightarrow> string \<Rightarrow> room_code \<Rightarrow> string \<Rightarrow> string option \<Rightarrow> string option
   \<Rightarrow> string option \<Rightarrow> server \<Rightarrow> server_message list \<times> session option \<times> server" where
  "handle_hello w session my_tx a rc h d t pw s0 =
     (let s = leave_old w session s0
      in case hello_admit w a rc h d t pw s of
           (Inl e, s1) \<Rightarrow> ([Error e], None, s1)
         | (Inr _, s1) \<Rightarrow>
             (case hello_room w a rc s1 of
                (Inl e, s2) \<Rightarrow> ([Error e], None, s2)
              | (Inr (c, ad), s2) \<Rightarrow> hello_join w a c ad my_tx h d pw s2))"

section \<open>Moves and inputs\<close>

definition move_in_room :: "world \<Rightarrow> peer_id \<Rightarrow> byte list \<Rightarrow> room_ctx \<Rightarrow> server_message list \<times> room_ctx" where
  "move_in_room w pid blob = (\<lambda>(r, lg).
     if host_peer_id r \<noteq> pid then ([MoveRejected ''only host can send moves''], (r, lg))
     else let mn = min_players (settings r); accepted_count = (word_of_nat (hm_len (clients r)) :: u32)
          in if 0 < mn \<and> accepted_count < mn
             then ([MoveRejected (''minimum '' @ dec_string (unat mn) @ '' players required to start'')], (r, lg))
             else ([MoveAccepted], broadcast_state_update_and_prune w (r\<lparr>state := blob\<rparr>, lg)))"

definition input_in_room :: "world \<Rightarrow> peer_id \<Rightarrow> byte list \<Rightarrow> room_ctx \<Rightarrow> server_message list \<times> room_ctx" where
  "input_in_room w pid blob = (\<lambda>(r, lg).
     if host_peer_id r \<noteq> pid
     then (case hm_get (clients r) (host_peer_id r) of
             Some host_info \<Rightarrow> ([], (r, snd (try_send w (tx host_info) (PeerInput pid blob) lg)))
           | None \<Rightarrow> ([], (r, lg)))
     else ([], (r, lg)))"

definition state_in_room :: "room_ctx \<Rightarrow> server_message list \<times> room_ctx" where
  "state_in_room = (\<lambda>(r, lg). (if state r \<noteq> [] then [StateUpdate (state r)] else [], (r, lg)))"

section \<open>Room control\<close>

text \<open>\<open>Leave\<close> and \<open>CreateRoom\<close> never get here: \<open>unreachable!()\<close> in the source.\<close>

fun control_in_room :: "world \<Rightarrow> peer_id \<Rightarrow> room_control \<Rightarrow> room_ctx \<Rightarrow> server_message list \<times> room_ctx" where
  "control_in_room w me rc (r, lg) =
     (if host_peer_id r \<noteq> me then ([Error ''forbidden or invalid''], (r, lg))
      else case rc of
        UpdateSettings new_settings \<Rightarrow>
          ([], broadcast_and_prune w (RoomEvent (SettingsChanged (new_settings\<lparr>password := None\<rparr>)))
                 (r\<lparr>settings := new_settings\<rparr>, lg))
      | SetPublic b \<Rightarrow> ([], (r\<lparr>settings := (settings r)\<lparr>is_public := b\<rparr>\<rparr>, lg))
      | AcceptPeer pid \<Rightarrow>
          (case hm_get (pending r) pid of
             Some info \<Rightarrow>
               ([], broadcast_and_prune w (PeerJoined pid (hash_str (client_hash info)) (display_name info))
                      (r\<lparr>pending := hm_remove pid (pending r), clients := hm_insert pid info (clients r)\<rparr>, lg))
           | None \<Rightarrow> ([], (r, lg)))
      | DenyPeer pid \<Rightarrow>
          (case hm_get (pending r) pid of
             Some info \<Rightarrow>
               ([], (r\<lparr>pending := hm_remove pid (pending r)\<rparr>, snd (try_send w (tx info) (RoomEvent Kicked) lg)))
           | None \<Rightarrow> ([], (r, lg)))
      | Kick pid \<Rightarrow>
          ([], broadcast_and_prune w (PeerLeft pid)
            (case hm_get (clients r) pid of
               Some info \<Rightarrow>
                 (r\<lparr>clients := hm_remove pid (clients r)\<rparr>, snd (try_send w (tx info) (RoomEvent Kicked) lg))
             | None \<Rightarrow> (r, lg)))
      | Ban pid \<Rightarrow>
          ([], broadcast_and_prune w (PeerLeft pid)
            (case hm_get (clients r) pid of
               Some info \<Rightarrow>
                 (r\<lparr>clients := hm_remove pid (clients r), banned := insert (client_hash info) (banned r)\<rparr>,
                  snd (try_send w (tx info) (RoomEvent Banned) lg))
             | None \<Rightarrow> (r, lg)))
      | TransferHost pid \<Rightarrow>
          (if hm_contains_key (clients r) pid
           then ([], broadcast_and_prune w (RoomEvent (HostTransferred pid)) (r\<lparr>host_peer_id := pid\<rparr>, lg))
           else ([], (r, lg)))
      | Leave \<Rightarrow> ([], (r, lg))
      | CreateRoom _ \<Rightarrow> ([], (r, lg)))"

section \<open>Dispatch\<close>

text \<open>Look the session's room up and run a handler under its mutex; no room, no effect.\<close>

definition in_session_room ::
  "world \<Rightarrow> session \<Rightarrow> (room_ctx \<Rightarrow> server_message list \<times> room_ctx) \<Rightarrow> server \<Rightarrow> server_message list \<times> server" where
  "in_session_room w ss f s =
     (case lookup_room w s (s_app_key ss) (s_room_code ss) of
        None \<Rightarrow> ([], s)
      | Some ad \<Rightarrow>
          let (out, (r, lg)) = f (heap s ad, sends s)
          in (out, s\<lparr>heap := (heap s)(ad := r), sends := lg\<rparr>))"

definition handle_control ::
  "world \<Rightarrow> session \<Rightarrow> room_control \<Rightarrow> server \<Rightarrow> server_message list \<times> session option \<times> server" where
  "handle_control w ss rc s =
     (case rc of
        Leave \<Rightarrow> ([], None, leave_room w (s_app_key ss) (s_room_code ss) (s_peer_id ss) s)
      | CreateRoom _ \<Rightarrow> ([Error ''already in a room''], Some ss, s)
      | _ \<Rightarrow> let (out, s') = in_session_room w ss (control_in_room w (s_peer_id ss) rc) s
             in (out, Some ss, s'))"

definition handle_list_rooms :: "world \<Rightarrow> string \<Rightarrow> server \<Rightarrow> server_message list \<times> server" where
  "handle_list_rooms w a s =
     (let (registered, c) = is_registered_app w a (cache s); s1 = s\<lparr>cache := c\<rparr>
      in if \<not> registered then ([Error ''unregistered game type''], s1)
         else case registry s1 a of
                None \<Rightarrow> ([RoomList []], s1)
              | Some p \<Rightarrow> ([RoomList (list_public_rooms w p s1)], s1))"

type_synonym dispatch_result = "server_message list \<times> session option \<times> server"

definition with_session ::
  "server_message list \<Rightarrow> session option \<Rightarrow> server \<Rightarrow> (session \<Rightarrow> dispatch_result) \<Rightarrow> dispatch_result" where
  "with_session otherwise session s f =
     (case session of None \<Rightarrow> (otherwise, None, s) | Some ss \<Rightarrow> f ss)"

definition handle_move :: "world \<Rightarrow> session option \<Rightarrow> byte list \<Rightarrow> server \<Rightarrow> dispatch_result" where
  "handle_move w session blob s =
     with_session [Error ''not in a room''] session s (\<lambda>ss.
       let (out, s') = in_session_room w ss (move_in_room w (s_peer_id ss) blob) s in (out, session, s'))"

definition handle_input :: "world \<Rightarrow> session option \<Rightarrow> byte list \<Rightarrow> server \<Rightarrow> dispatch_result" where
  "handle_input w session blob s =
     with_session [Error ''not in a room''] session s (\<lambda>ss.
       let (out, s') = in_session_room w ss (input_in_room w (s_peer_id ss) blob) s in (out, session, s'))"

definition handle_room_control :: "world \<Rightarrow> session option \<Rightarrow> room_control \<Rightarrow> server \<Rightarrow> dispatch_result" where
  "handle_room_control w session rc s =
     with_session [Error ''not in a room''] session s (\<lambda>ss. handle_control w ss rc s)"

definition handle_request_state :: "world \<Rightarrow> session option \<Rightarrow> server \<Rightarrow> dispatch_result" where
  "handle_request_state w session s =
     with_session [] session s (\<lambda>ss.
       let (out, s') = in_session_room w ss state_in_room s in (out, session, s'))"

text \<open>
  The source returns \<open>io::Result<Vec<ServerMessage>>\<close>; every path of it is \<open>Ok\<close>.
\<close>

definition dispatch :: "world \<Rightarrow> session option \<Rightarrow> conn_id \<Rightarrow> client_message \<Rightarrow> server \<Rightarrow> dispatch_result" where
  "dispatch w session my_tx msg s =
     (case msg of
        Hello a rc h d t pw \<Rightarrow> handle_hello w session my_tx a rc h d t pw s
      | Move blob \<Rightarrow> handle_move w session blob s
      | Input blob \<Rightarrow> handle_input w session blob s
      | RoomControl rc \<Rightarrow> handle_room_control w session rc s
      | RequestState \<Rightarrow> handle_request_state w session s
      | Ping \<Rightarrow> ([Pong], session, s)
      | ListRooms a \<Rightarrow> let (out, s') = handle_list_rooms w a s in (out, session, s'))"

lemmas dispatch_defs = dispatch_def handle_move_def handle_input_def handle_room_control_def handle_request_state_def

end
