(* ===== verification/Handlers.thy ===== *)
theory Handlers
  imports Dispatch
begin

text \<open>
  What the handlers do to one room.  Every operation under a room's mutex is shown to be an
  instance of the locale \<open>room_operation\<close>: it keeps the room well-formed, keeps its identity,
  adds no member, and sends no password.  Joining is treated on its own.
\<close>

section \<open>Members and their channels\<close>

lemma member_info_update [simp]:
  "member_info (r\<lparr>host_peer_id := h\<rparr>) = member_info r"
  "member_info (r\<lparr>state := b\<rparr>) = member_info r"
  "member_info (r\<lparr>settings := st\<rparr>) = member_info r"
  "member_info (r\<lparr>banned := bn\<rparr>) = member_info r"
  "member_info (r\<lparr>next_peer_id := n\<rparr>) = member_info r"
  by (simp_all add: member_info_def fun_eq_iff split: option.split)

lemma members_update [simp]:
  "members (r\<lparr>host_peer_id := h\<rparr>) = members r"
  "members (r\<lparr>state := b\<rparr>) = members r"
  "members (r\<lparr>settings := st\<rparr>) = members r"
  "members (r\<lparr>banned := bn\<rparr>) = members r"
  "members (r\<lparr>next_peer_id := n\<rparr>) = members r"
  by (simp_all add: members_def client_ids_def pending_ids_def)

lemma room_wf_update [simp]:
  "room_wf (r\<lparr>host_peer_id := h\<rparr>) = room_wf r"
  "room_wf (r\<lparr>state := b\<rparr>) = room_wf r"
  "room_wf (r\<lparr>settings := st\<rparr>) = room_wf r"
  "room_wf (r\<lparr>banned := bn\<rparr>) = room_wf r"
  by (simp_all add: room_wf_def members_def client_ids_def pending_ids_def)

lemma room_is_empty_members: "room_is_empty r \<longleftrightarrow> members r = {}"
  by (simp add: room_is_empty_def hm_is_empty_dom members_def client_ids_def pending_ids_def)

text \<open>
  \<open>keeps r r'\<close>: the same room, well-formed, whose members are some of the old ones with their
  old records.
\<close>

definition keeps :: "room \<Rightarrow> room \<Rightarrow> bool" where
  "keeps r r' \<longleftrightarrow> room_wf r' \<and> app_key r' = app_key r \<and> code r' = code r \<and>
     member_info r' \<subseteq>\<^sub>m member_info r"

lemma keeps_refl: "room_wf r \<Longrightarrow> keeps r r"
  by (simp add: keeps_def)

lemma keeps_trans: "keeps r r1 \<Longrightarrow> keeps r1 r' \<Longrightarrow> keeps r r'"
  by (auto simp: keeps_def intro: map_le_trans)

lemma keeps_members: "keeps r r' \<Longrightarrow> members r' \<subseteq> members r"
  by (metis keeps_def dom_member_info map_le_implies_dom_le)

lemma keeps_wf: "keeps r r' \<Longrightarrow> room_wf r'"
  by (simp add: keeps_def)

lemma keeps_pruned: "pruned D r r' \<Longrightarrow> keeps r r'"
  by (auto simp: keeps_def pruned_wf pruned_frame pruned_member_info map_le_def restrict_map_def
      split: if_splits)

lemma keeps_settled: "settled w m r lg r' lg' \<Longrightarrow> keeps r r'"
  using settled_pruned keeps_pruned by blast

lemma member_info_remove_member: "member_info (remove_member pid r) = (member_info r)(pid := None)"
  by (auto simp: member_info_def remove_member_def fun_eq_iff split: option.split)

lemma member_info_remove_client:
  assumes "room_wf r"
  shows "member_info (remove_client pid r) \<subseteq>\<^sub>m member_info r"
proof -
  have "client_ids r \<inter> pending_ids r = {}" using assms by (rule room_wfD(3))
  then have "hm_get (clients r) pid = None \<or> hm_get (pending r) pid = None"
    by (auto simp: client_ids_def pending_ids_def)
  then show ?thesis
    by (auto simp: map_le_def member_info_def remove_client_def split: option.splits if_splits)
qed

lemma remove_frame [simp]:
  "app_key (remove_member pid r) = app_key r" "code (remove_member pid r) = code r"
  "app_key (remove_client pid r) = app_key r" "code (remove_client pid r) = code r"
  by (simp_all add: remove_member_def remove_client_def)

lemma keeps_remove_member: "room_wf r \<Longrightarrow> keeps r (remove_member pid r)"
  by (simp add: keeps_def member_info_remove_member map_le_def)

lemma keeps_remove_client: "room_wf r \<Longrightarrow> keeps r (remove_client pid r)"
  by (simp add: keeps_def member_info_remove_client)

lemma keeps_remove_pending: "room_wf r \<Longrightarrow> keeps r (r\<lparr>pending := hm_remove pid (pending r)\<rparr>)"
  by (auto simp: keeps_def room_wf_def map_le_def member_info_def members_def client_ids_def
      pending_ids_def split: option.splits if_splits)

text \<open>\<open>AcceptPeer\<close>: from pending to accepted, with the same record.\<close>

lemma keeps_accept:
  assumes wf: "room_wf r" and p: "hm_get (pending r) pid = Some info"
  shows "keeps r (r\<lparr>pending := hm_remove pid (pending r), clients := hm_insert pid info (clients r)\<rparr>)"
proof -
  have n: "hm_get (clients r) pid = None" "pid \<noteq> 0"
    using wf p by (auto simp: room_wf_def members_def client_ids_def pending_ids_def)
  have ok: "hm_ok (clients r)" "hm_ok (pending r)" using wf by (simp_all add: room_wf_def)
  then show ?thesis
    using wf n p
    by (auto simp: keeps_def room_wf_def map_le_def member_info_def members_def client_ids_def
        pending_ids_def hm_get_insert split: option.splits if_splits)
qed

section \<open>Operations under the mutex\<close>

text \<open>The contract every handler that works on an existing room fulfils.\<close>

locale room_operation =
  fixes act :: "room_ctx \<Rightarrow> server_message list \<times> room_ctx"
  assumes act_keeps: "room_wf r \<Longrightarrow> act (r, lg) = (out, (r', lg')) \<Longrightarrow> keeps r r'"
    and act_log: "room_wf r \<Longrightarrow> act (r, lg) = (out, (r', lg')) \<Longrightarrow>
      \<exists>ex. lg' = lg @ ex \<and> (\<forall>m \<in> set out \<union> log_msgs ex. no_password m)"
begin

lemma act_members: "room_wf r \<Longrightarrow> act (r, lg) = (out, (r', lg')) \<Longrightarrow> members r' \<subseteq> members r"
  using act_keeps keeps_members by blast

end

lemma no_password_simps [simp]:
  "no_password (PeerLeft p)" "no_password (PeerJoined p h d)" "no_password (StateUpdate b)"
  "no_password (PeerInput p b)" "no_password MoveAccepted" "no_password (MoveRejected e)"
  "no_password Pong" "no_password (Error e)" "no_password (RoomEvent (HostTransferred p))"
  "no_password (RoomEvent Kicked)" "no_password (RoomEvent Banned)"
  "no_password (RoomEvent (SettingsChanged st)) = (password st = None)"
  "no_password (Joined c p q sd st b0) = (password st = None)"
  by (simp_all add: no_password_def)

lemma settled_no_password:
  assumes "settled w m r lg r' lg'" and "no_password m"
  shows "\<exists>ex. lg' = lg @ ex \<and> (\<forall>m \<in> log_msgs ex. no_password m)"
proof -
  from settled_log [OF assms(1)] obtain ex where lg': "lg' = lg @ ex"
    and sub: "log_msgs ex \<subseteq> {m} \<union> range PeerLeft \<union> range (\<lambda>h. RoomEvent (HostTransferred h))" by blast
  have "no_password m'" if "m' \<in> log_msgs ex" for m'
    using subsetD [OF sub that] assms(2) by auto
  with lg' show ?thesis by blast
qed

lemma try_send_no_password:
  "no_password m \<Longrightarrow> \<exists>ex. snd (try_send w c m lg) = lg @ ex \<and> (\<forall>m \<in> log_msgs ex. no_password m)"
  by (simp add: try_send_def Let_def)

text \<open>A pruning broadcast after a step that keeps the room, from a log that already grew.\<close>

lemma broadcast_after_keeps:
  assumes "keeps r r1" and "lg1 = lg @ ex1" and "\<forall>m \<in> log_msgs ex1. no_password m" and "no_password m"
    and "broadcast_and_prune w m (r1, lg1) = (r', lg')"
  shows "keeps r r' \<and> (\<exists>ex. lg' = lg @ ex \<and> (\<forall>m \<in> log_msgs ex. no_password m))"
proof -
  have s: "settled w m r1 lg1 r' lg'"
    using assms(1,5) by (intro broadcast_and_prune_settled) (simp_all add: keeps_wf)
  from settled_no_password [OF s assms(4)] obtain ex2 where
    "lg' = lg1 @ ex2" "\<forall>m \<in> log_msgs ex2. no_password m" by blast
  with assms(2,3) have "lg' = lg @ ex1 @ ex2" "\<forall>m \<in> log_msgs (ex1 @ ex2). no_password m" by auto
  with keeps_trans [OF assms(1) keeps_settled [OF s]] show ?thesis by blast
qed

lemma broadcast_after_keeps_same:
  "keeps r r1 \<Longrightarrow> no_password m \<Longrightarrow> broadcast_and_prune w m (r1, lg) = (r', lg') \<Longrightarrow>
   keeps r r' \<and> (\<exists>ex. lg' = lg @ ex \<and> (\<forall>m \<in> log_msgs ex. no_password m))"
  by (rule broadcast_after_keeps [of r r1 lg lg "[]"]) simp_all

text \<open>Leaving removes the peer: what is left is part of the room without it.\<close>

lemma leave_in_room_gone:
  assumes wf: "room_wf r" and run: "leave_in_room w pid (r, lg) = (r', lg')"
  shows "keeps (remove_member pid r) r' \<and> (\<exists>ex. lg' = lg @ ex \<and> (\<forall>m \<in> log_msgs ex. no_password m))"
proof -
  let ?r0 = "remove_member pid r"
  have k0: "keeps ?r0 ?r0" using wf by (intro keeps_refl) simp
  obtain r1 lg1 where b: "broadcast_and_prune w (PeerLeft pid) (?r0, lg) = (r1, lg1)" by fastforce
  from broadcast_after_keeps_same [OF k0 _ b] obtain ex1 where
    k1: "keeps ?r0 r1" and e1: "lg1 = lg @ ex1" "\<forall>m \<in> log_msgs ex1. no_password m" by auto
  show ?thesis
  proof (cases "host_peer_id r1 = pid \<and> hm_first_key (clients r1) \<noteq> None")
    case True
    then obtain h where h: "hm_first_key (clients r1) = Some h" by blast
    with True b run have b2: "broadcast_and_prune w (RoomEvent (HostTransferred h))
        (r1\<lparr>host_peer_id := h\<rparr>, lg1) = (r', lg')"
      by (simp add: leave_in_room_def)
    have "keeps ?r0 (r1\<lparr>host_peer_id := h\<rparr>)" using k1 by (simp add: keeps_def)
    from broadcast_after_keeps [OF this e1 _ b2] show ?thesis by simp
  next
    case False
    with b run have "r' = r1" "lg' = lg1" by (auto simp: leave_in_room_def split: if_splits option.splits)
    with k1 e1 show ?thesis by blast
  qed
qed

text \<open>The last client leaves: there is nobody to tell and nobody to take over.\<close>

lemma leave_in_room_last:
  assumes "room_wf r" and "members r = {pid}"
  shows "leave_in_room w pid (r, lg) = (remove_member pid r, lg)" "members (remove_member pid r) = {}"
proof -
  show e: "members (remove_member pid r) = {}"
    using assms(2) by (simp add: dom_member_info [symmetric] member_info_remove_member)
  then have "client_ids (remove_member pid r) = {}" by (simp add: members_def)
  then have "hm_is_empty (clients (remove_member pid r))" by (simp add: client_ids_def hm_is_empty_dom)
  then have "table (clients (remove_member pid r)) = []" by (simp add: hm_is_empty_def)
  then show "leave_in_room w pid (r, lg) = (remove_member pid r, lg)"
    by (simp add: leave_in_room_def broadcast_and_prune_def broadcast_retain_connected_def prune_and_announce_def
        announce_host_def hm_first_key_def)
qed

lemma leave_in_room_keeps:
  assumes wf: "room_wf r" and run: "leave_in_room w pid (r, lg) = (r', lg')"
  shows "keeps r r' \<and> (\<exists>ex. lg' = lg @ ex \<and> (\<forall>m \<in> log_msgs ex. no_password m))"
  using leave_in_room_gone [OF wf run] keeps_trans [OF keeps_remove_member [OF wf]] by blast

lemma room_operation_leave: "room_operation (\<lambda>ctx. ([], leave_in_room w pid ctx))"
  by unfold_locales (auto dest: leave_in_room_keeps)

lemma room_operation_move: "room_operation (move_in_room w pid blob)"
proof unfold_locales
  fix r :: room and lg out r' lg'
  assume wf: "room_wf r" and run: "move_in_room w pid blob (r, lg) = (out, (r', lg'))"
  have "(r' = r \<and> lg' = lg \<or> broadcast_state_update_and_prune w (r\<lparr>state := blob\<rparr>, lg) = (r', lg'))
      \<and> (\<forall>m \<in> set out. no_password m)"
    using run by (auto simp: move_in_room_def Let_def split: if_splits prod.splits)
  moreover have "keeps r r' \<and> (\<exists>ex. lg' = lg @ ex \<and> (\<forall>m \<in> log_msgs ex. no_password m))"
    if "broadcast_state_update_and_prune w (r\<lparr>state := blob\<rparr>, lg) = (r', lg')"
  proof -
    from wf that have s: "settled w (StateUpdate blob) (r\<lparr>state := blob\<rparr>) lg r' lg'"
      by (auto dest!: broadcast_state_update_and_prune_settled [rotated])
    have "keeps r (r\<lparr>state := blob\<rparr>)" using wf by (simp add: keeps_def)
    with settled_no_password [OF s] keeps_settled [OF s] show ?thesis by (auto intro: keeps_trans)
  qed
  ultimately show "keeps r r'" "\<exists>ex. lg' = lg @ ex \<and> (\<forall>m \<in> set out \<union> log_msgs ex. no_password m)"
    using wf by (auto intro: keeps_refl)
qed

lemma room_operation_input: "room_operation (input_in_room w pid blob)"
  by unfold_locales
    (auto simp: input_in_room_def try_send_def Let_def keeps_refl split: if_splits option.splits)

lemma room_operation_state: "room_operation state_in_room"
  by unfold_locales (auto simp: state_in_room_def keeps_refl split: if_splits)

section \<open>Room control\<close>

lemma broadcast_reply:
  assumes "keeps r r1" and "lg1 = lg @ ex1" and "\<forall>m \<in> log_msgs ex1. no_password m" and "no_password m"
    and "([] :: server_message list, broadcast_and_prune w m (r1, lg1)) = (out, (r', lg'))"
  shows "keeps r r' \<and> (\<exists>ex. lg' = lg @ ex \<and> (\<forall>m \<in> set out \<union> log_msgs ex. no_password m))"
  using broadcast_after_keeps [OF assms(1-4), of w r' lg'] assms(5) by simp

lemmas broadcast_reply_same = broadcast_reply [OF _ append_Nil2 [symmetric], simplified]

text \<open>Removing a client after telling it so: \<open>Kick\<close> and \<open>Ban\<close>.\<close>

lemma evict_reply:
  assumes wf: "room_wf r" and np: "no_password m" "no_password ev"
    and r1: "r1 = (remove_client pid r)\<lparr>banned := bn\<rparr>"
    and run: "([], broadcast_and_prune w m (r1, snd (try_send w c ev lg))) = (out, (r', lg'))"
  shows "keeps r r' \<and> (\<exists>ex. lg' = lg @ ex \<and> (\<forall>m \<in> set out \<union> log_msgs ex. no_password m))"
proof -
  from try_send_no_password [OF np(2), of w c lg] obtain ex where
    ex: "snd (try_send w c ev lg) = lg @ ex" "\<forall>m \<in> log_msgs ex. no_password m" by blast
  have "keeps r r1" using keeps_remove_client [OF wf, of pid] by (simp add: keeps_def r1)
  from broadcast_reply [OF this ex np(1) run] show ?thesis .
qed

lemma control_keeps:
  assumes wf: "room_wf r" and run: "control_in_room w me rc (r, lg) = (out, (r', lg'))"
  shows "keeps r r' \<and> (\<exists>ex. lg' = lg @ ex \<and> (\<forall>m \<in> set out \<union> log_msgs ex. no_password m))"
proof (cases "host_peer_id r = me")
  case False
  with run wf show ?thesis by (auto simp: keeps_refl)
next
  case True
  have same: "r' = r \<Longrightarrow> lg' = lg \<Longrightarrow> out = [] \<Longrightarrow> ?thesis" using wf by (simp add: keeps_refl)
  note run = run [simplified control_in_room.simps True, simplified]
  show ?thesis
  proof (cases rc)
    case (UpdateSettings st)
    have k: "keeps r (r\<lparr>settings := st\<rparr>)" using wf by (simp add: keeps_def)
    show ?thesis by (rule broadcast_reply_same [where w = w and m = "RoomEvent (SettingsChanged (st\<lparr>password := None\<rparr>))", OF k])
        (use run UpdateSettings in simp_all)
  next
    case (SetPublic b)
    with run wf show ?thesis by (auto simp: keeps_def)
  next
    case (AcceptPeer pid)
    show ?thesis
    proof (cases "hm_get (pending r) pid")
      case None
      with run AcceptPeer show ?thesis by (intro same) simp_all
    next
      case (Some info)
      show ?thesis
        by (rule broadcast_reply_same [where w = w and
              m = "PeerJoined pid (hash_str (client_hash info)) (display_name info)", OF keeps_accept [OF wf Some]])
          (use run AcceptPeer Some in simp_all)
    qed
  next
    case (DenyPeer pid)
    show ?thesis
    proof (cases "hm_get (pending r) pid")
      case None
      with run DenyPeer show ?thesis by (intro same) simp_all
    next
      case (Some info)
      with run DenyPeer keeps_remove_pending [OF wf, of pid] show ?thesis
        by (auto simp: try_send_def Let_def)
    qed
  next
    case (Kick pid)
    show ?thesis
    proof (cases "hm_get (clients r) pid")
      case None
      show ?thesis by (rule broadcast_reply_same [where w = w and m = "PeerLeft pid", OF keeps_refl [OF wf]])
        (use run Kick None in simp_all)
    next
      case (Some info)
      show ?thesis
        by (rule evict_reply [where w = w and m = "PeerLeft pid" and ev = "RoomEvent Kicked" and pid = pid
            and bn = "banned r" and c = "tx info", OF wf _ _ refl])
          (use run Kick Some in \<open>simp_all add: remove_client_def\<close>)
    qed
  next
    case (Ban pid)
    show ?thesis
    proof (cases "hm_get (clients r) pid")
      case None
      show ?thesis by (rule broadcast_reply_same [where w = w and m = "PeerLeft pid", OF keeps_refl [OF wf]])
        (use run Ban None in simp_all)
    next
      case (Some info)
      show ?thesis
        by (rule evict_reply [where w = w and m = "PeerLeft pid" and ev = "RoomEvent Banned" and pid = pid
            and bn = "insert (client_hash info) (banned r)" and c = "tx info", OF wf _ _ refl])
          (use run Ban Some in \<open>simp_all add: remove_client_def\<close>)
    qed
  next
    case (TransferHost pid)
    show ?thesis
    proof (cases "hm_contains_key (clients r) pid")
      case False
      with run TransferHost show ?thesis by (intro same) simp_all
    next
      case True
      have k: "keeps r (r\<lparr>host_peer_id := pid\<rparr>)" using wf by (simp add: keeps_def)
      show ?thesis by (rule broadcast_reply_same [where w = w and m = "RoomEvent (HostTransferred pid)", OF k])
        (use run TransferHost True in simp_all)
    qed
  qed (use run wf in \<open>auto simp: keeps_refl\<close>)
qed

lemma room_operation_control: "room_operation (control_in_room w me rc)"
  by unfold_locales (blast dest: control_keeps)+

section \<open>Joining\<close>

lemma notify_joined_log:
  "\<exists>ex. notify_joined w pid m es lg = lg @ ex \<and> log_msgs ex \<subseteq> {m} \<and>
    (\<forall>q i. (q, i) \<in> set es \<longrightarrow> q \<noteq> pid \<longrightarrow> (\<exists>res. (tx i, m, res) \<in> set ex))"
proof (induction es arbitrary: lg)
  case Nil
  show ?case by (rule exI [of _ "[]"]) simp
next
  case (Cons e es)
  obtain q i where e: "e = (q, i)" by fastforce
  let ?x = "if q \<noteq> pid then [(tx i, m, w_try_send w lg (tx i) m)] else []"
  obtain ex where ex: "notify_joined w pid m es (lg @ ?x) = (lg @ ?x) @ ex" "log_msgs ex \<subseteq> {m}"
    "\<forall>q i. (q, i) \<in> set es \<longrightarrow> q \<noteq> pid \<longrightarrow> (\<exists>res. (tx i, m, res) \<in> set ex)"
    using Cons.IH by blast
  show ?case
  proof (intro exI [of _ "?x @ ex"] conjI allI impI)
    show "notify_joined w pid m (e # es) lg = lg @ ?x @ ex"
      using ex(1) by (auto simp: e try_send_def Let_def)
    show "log_msgs (?x @ ex) \<subseteq> {m}" using ex(2) by auto
    fix q' i' assume "(q', i') \<in> set (e # es)" "q' \<noteq> pid"
    then have "(q' = q \<and> i' = i) \<or> (q', i') \<in> set es" by (auto simp: e)
    then show "\<exists>res. (tx i', m, res) \<in> set (?x @ ex)"
    proof
      assume "q' = q \<and> i' = i"
      with \<open>q' \<noteq> pid\<close> show ?thesis by auto
    next
      assume "(q', i') \<in> set es"
      with ex(3) \<open>q' \<noteq> pid\<close> obtain res where "(tx i', m, res) \<in> set ex" by blast
      then show ?thesis by (intro exI [of _ res]) simp
    qed
  qed
qed

text \<open>The record of a newcomer, and the room after it was added.\<close>

definition newcomer :: "room \<Rightarrow> conn_id \<Rightarrow> string \<Rightarrow> string option \<Rightarrow> client_info" where
  "newcomer r my_tx h d =
     \<lparr>client_hash = ClientHash h, display_name = d, tx = my_tx, side = next_available_side r\<rparr>"

definition admitted :: "room \<Rightarrow> peer_id \<Rightarrow> client_info \<Rightarrow> room \<Rightarrow> bool" where
  "admitted r pid info r' \<longleftrightarrow>
     room_wf r' \<and> pid \<noteq> 0 \<and> pid \<notin> members r \<and> member_info r' = (member_info r)(pid \<mapsto> info) \<and>
     app_key r' = app_key r \<and> code r' = code r \<and> settings r' = settings r \<and> state r' = state r \<and>
     banned r' = banned r \<and>
     host_peer_id r' = (if members r = {} then pid else host_peer_id r) \<and>
     client_ids r' = (if members r = {} \<or> \<not> accept_required (settings r)
                      then insert pid (client_ids r) else client_ids r)"

lemma admittedI:
  assumes wf: "room_wf r" and pid: "pid \<noteq> 0" "pid \<notin> members r" and n: "n \<noteq> 0"
  shows "admitted r pid info (place_peer pid info (r\<lparr>next_peer_id := n\<rparr>))"
proof -
  let ?r' = "place_peer pid info (r\<lparr>next_peer_id := n\<rparr>)"
  have ok: "hm_ok (clients r)" "hm_ok (pending r)" using wf by (simp_all add: room_wf_def)
  have no: "hm_get (clients r) pid = None" "hm_get (pending r) pid = None"
    using pid(2) by (auto simp: members_def client_ids_def pending_ids_def)
  have "room_wf ?r'"
    using wf pid(1) n no ok
    by (auto simp: place_peer_def room_wf_def members_def client_ids_def pending_ids_def hm_get_insert)
  moreover have "member_info ?r' = (member_info r)(pid \<mapsto> info)"
    using ok no by (auto simp: place_peer_def member_info_def fun_eq_iff hm_get_insert split: option.split)
  ultimately show ?thesis
    using pid ok
    by (simp add: admitted_def place_peer_def room_is_empty_members client_ids_def hm_get_insert)
qed

lemma side_after_alloc [simp]: "next_available_side (r\<lparr>next_peer_id := n\<rparr>) = next_available_side r"
  by (simp add: next_available_side_def max_side_def used_sides_def)

lemma is_empty_after_alloc [simp]: "room_is_empty (r\<lparr>next_peer_id := n\<rparr>) = room_is_empty r"
  by (simp add: room_is_empty_def)

lemma admit_peer_pid: "admit_peer w c my_tx h d pid ctx = ((pid', j), ctx') \<Longrightarrow> pid' = pid"
  by (cases ctx) (simp add: admit_peer_def Let_def)

lemma join_room_Inr:
  assumes wf: "room_wf r" and run: "join_room w c my_tx h d pw (r, lg) = (Inr (pid, joined), (r', lg'))"
  shows "admitted r pid (newcomer r my_tx h d) r'"
    and "\<not> is_banned r (ClientHash h) \<and> \<not> is_full r \<and> password_ok r pw"
    and "joined = Joined c pid (host_peer_id r') (next_available_side r)
           ((settings r)\<lparr>password := None\<rparr>) (if state r = [] then None else Some (state r))"
    and "\<exists>ex. lg' = lg @ ex \<and> log_msgs ex \<subseteq> {PeerJoined pid h d} \<and>
           (if pid \<in> client_ids r'
            then \<forall>q i. hm_get (clients r') q = Some i \<and> q \<noteq> pid \<longrightarrow> (\<exists>res. (tx i, PeerJoined pid h d, res) \<in> set ex)
            else ex = [])"
proof -
  from run have ok: "\<not> is_banned r (ClientHash h)" "\<not> is_full r" "password_ok r pw"
    by (auto simp: join_room_def split: if_splits option.splits)
  then show "\<not> is_banned r (ClientHash h) \<and> \<not> is_full r \<and> password_ok r pw" by simp
  obtain res r1 where al: "alloc_peer_id r = (res, r1)" by fastforce
  with run ok have res: "res = Some pid" by (auto simp: join_room_def Let_def dest: admit_peer_pid split: option.splits prod.splits)
  define n where "n = next_peer_id r1"
  have r1: "r1 = r\<lparr>next_peer_id := n\<rparr>" unfolding n_def by (rule alloc_peer_id_frame [OF al])
  let ?info = "newcomer r my_tx h d"
  have "admit_peer w c my_tx h d pid (r1, lg) = ((pid, joined), (r', lg'))"
    using run ok al res by (auto simp: join_room_def admit_peer_def Let_def split: prod.splits)
  note out = this [unfolded admit_peer_def Let_def case_prod_conv prod.inject]
  have out: "r' = place_peer pid ?info r1"
      "joined = Joined c pid (host_peer_id r') (next_available_side r) ((settings r')\<lparr>password := None\<rparr>)
         (if state r' = [] then None else Some (state r'))"
      "lg' = (if \<not> accept_required (settings r') \<or> hm_contains_key (clients r') pid
         then notify_joined w pid (PeerJoined pid h d) (table (clients r')) lg else lg)"
    using out by (auto simp only: newcomer_def r1 side_after_alloc)
  have fresh: "pid \<noteq> 0 \<and> pid \<notin> members r" using alloc_peer_id_fresh [OF wf] al res by simp
  have "n \<noteq> 0" using alloc_peer_id_next [OF al] by (simp add: n_def)
  with fresh out(1) show adm: "admitted r pid ?info r'" unfolding out(1) r1 by (intro admittedI [OF wf]) simp_all
  then show "joined = Joined c pid (host_peer_id r') (next_available_side r)
      ((settings r)\<lparr>password := None\<rparr>) (if state r = [] then None else Some (state r))"
    using out(2) by (simp add: admitted_def)
  show "\<exists>ex. lg' = lg @ ex \<and> log_msgs ex \<subseteq> {PeerJoined pid h d} \<and>
      (if pid \<in> client_ids r'
       then \<forall>q i. hm_get (clients r') q = Some i \<and> q \<noteq> pid \<longrightarrow> (\<exists>res. (tx i, PeerJoined pid h d, res) \<in> set ex)
       else ex = [])"
  proof (cases "pid \<in> client_ids r'")
    case True
    then have "lg' = notify_joined w pid (PeerJoined pid h d) (table (clients r')) lg"
      using out(3) by (simp add: client_ids_def)
    moreover have "hm_ok (clients r')" using adm by (simp add: admitted_def room_wf_def)
    ultimately show ?thesis
      using notify_joined_log [of w pid "PeerJoined pid h d" "table (clients r')" lg] True
      by (auto simp: hm_entries)
  next
    case False
    then have "accept_required (settings r')" using adm by (auto simp: admitted_def split: if_splits)
    with False have "lg' = lg" using out(3) by (simp add: client_ids_def domIff)
    with False show ?thesis by (intro exI [of _ "[]"]) simp
  qed
qed

lemma join_room_Inl:
  assumes run: "join_room w c my_tx h d pw (r, lg) = (Inl e, (r', lg'))"
  shows "lg' = lg \<and> (\<exists>n. r' = r\<lparr>next_peer_id := n\<rparr> \<and> (n = next_peer_id r \<or> n \<noteq> 0))"
proof -
  obtain res r1 where al: "alloc_peer_id r = (res, r1)" by fastforce
  have "r' = r \<or> r' = r1" and "lg' = lg"
    using run al by (auto simp: join_room_def Let_def split: if_splits option.splits prod.splits)
  moreover have "r = r\<lparr>next_peer_id := next_peer_id r\<rparr>" by simp
  ultimately show ?thesis
    using alloc_peer_id_frame [OF al] alloc_peer_id_next [OF al] by metis
qed

lemma join_room_succeeds:
  assumes wf: "room_wf r" and ok: "\<not> is_banned r (ClientHash h)" "\<not> is_full r" "password_ok r pw"
    and free: "q \<noteq> 0" "q \<notin> members r"
  shows "\<exists>pid joined r' lg'. join_room w c my_tx h d pw (r, lg) = (Inr (pid, joined), (r', lg'))"
proof -
  obtain a r1 where al: "alloc_peer_id r = (a, r1)" by fastforce
  have "a \<noteq> None" using alloc_peer_id_None [of r r1 q] al free by auto
  then obtain pid where a: "a = Some pid" by blast
  obtain x r' lg' where "admit_peer w c my_tx h d pid (r1, lg) = (x, (r', lg'))" by (metis surj_pair)
  with ok al a show ?thesis by (cases x) (simp add: join_room_def)
qed

section \<open>The first peer of a room\<close>

lemma table_insert_new: "table (hm_insert k v (hm_new h)) = [(k, v)]"
proof -
  have "mset (table (hm_insert k v (hm_new h))) = {#(k, v)#}"
    by (simp add: hm_insert_def hm_new_def hm_contains_key_def hm_get_def del: hm_contains_key_dom)
  then show ?thesis by simp
qed

text \<open>Whoever enters a fresh room becomes its host, with peer id 1 and side 0; nobody else is told.\<close>

lemma join_new_room:
  fixes w a c0 st
  defines "r \<equiv> Room_new w a c0 st"
  assumes "\<not> is_full r" and "password_ok r pw"
  shows "\<exists>r'. join_room w' c i h d pw (r, lg) = (Inr (1, Joined c 1 1 0 (st\<lparr>password := None\<rparr>) None), (r', lg)) \<and>
     member_info r' = [1 \<mapsto> \<lparr>client_hash = ClientHash h, display_name = d, tx = i, side = 0\<rparr>] \<and>
     host_peer_id r' = 1 \<and> state r' = [] \<and> settings r' = st \<and> banned r' = {}"
proof -
  let ?r1 = "r\<lparr>next_peer_id := 2\<rparr>" and ?info = "\<lparr>client_hash = ClientHash h, display_name = d, tx = i, side = 0\<rparr>"
  let ?r' = "?r1\<lparr>host_peer_id := 1, clients := hm_insert 1 ?info (clients r)\<rparr>"
  have f: "clients r = hm_new (w_random_state w 0)" "pending r = hm_new (w_random_state w 1)"
    "settings r = st" "state r = []" "banned r = {}"
    by (simp_all add: r_def Room_new_def)
  have al: "alloc_peer_id r = (Some 1, ?r1)"
    by (simp add: alloc_peer_id_def in_use_def r_def Room_new_def saturating_add_def Let_def)
  have mem: "members ?r1 = {}"
    by (auto simp: members_def client_ids_def pending_ids_def f hm_get_def hm_new_def)
  have "room_wf r" "members r = {}" using mem by (simp_all add: r_def)
  from next_available_side_fresh [OF this(1), of 0] this(2) have "unat (next_available_side r) = 0" by simp
  then have sd: "next_available_side ?r1 = 0" by (simp add: unat_eq_zero)
  have "table (clients ?r') = [(1, ?info)]" by (simp add: f table_insert_new)
  then have "join_room w' c i h d pw (r, lg) = (Inr (1, Joined c 1 1 0 (st\<lparr>password := None\<rparr>) None), (?r', lg))"
    using al sd assms(2,3) mem f
    by (simp add: join_room_def admit_peer_def place_peer_def room_is_empty_members is_banned_def Let_def)
  moreover have "member_info ?r' = [1 \<mapsto> ?info]"
    by (simp add: member_info_def fun_eq_iff f hm_get_insert)
  ultimately show ?thesis using f by simp
qed

end
