(* ===== verification/Hosting.thy ===== *)
theory Hosting
  imports Handlers
begin

text \<open>
  Who hosts a room and who may change it.  \<open>host_ok\<close>: the host is an accepted client unless
  no client is left.  Most operations keep it (locale \<open>host_operation\<close>, an extension of
  \<open>room_operation\<close>); eviction of the host by itself does not.  The lemmas on \<open>state\<close> say
  which operations leave the game state alone.
\<close>

definition host_ok :: "room \<Rightarrow> bool" where
  "host_ok r \<longleftrightarrow> client_ids r = {} \<or> host_peer_id r \<in> client_ids r"

lemma client_ids_update [simp]:
  "client_ids (r\<lparr>host_peer_id := h\<rparr>) = client_ids r"
  "client_ids (r\<lparr>state := b\<rparr>) = client_ids r"
  "client_ids (r\<lparr>settings := st\<rparr>) = client_ids r"
  "client_ids (r\<lparr>banned := bn\<rparr>) = client_ids r"
  "client_ids (r\<lparr>next_peer_id := n\<rparr>) = client_ids r"
  "client_ids (r\<lparr>pending := p\<rparr>) = client_ids r"
  by (simp_all add: client_ids_def)

lemma client_ids_remove [simp]:
  "client_ids (remove_client pid r) = client_ids r - {pid}"
  "client_ids (remove_member pid r) = client_ids r - {pid}"
  by (auto simp: client_ids_def remove_client_def remove_member_def)

lemma pruned_host_ok:
  assumes "pruned D r r'" and "host_ok r"
  shows "host_ok r'"
proof (cases "host_peer_id r \<in> D")
  case True
  with assms(1) show ?thesis by (auto simp: pruned_def host_ok_def split: if_splits)
next
  case False
  moreover have "client_ids r' = client_ids r - D" by (rule pruned_client_ids [OF assms(1)])
  ultimately show ?thesis using assms by (auto simp: pruned_def host_ok_def)
qed

lemma settled_host_ok: "settled w m r lg r' lg' \<Longrightarrow> host_ok r \<Longrightarrow> host_ok r'"
  using settled_pruned pruned_host_ok by blast

lemma settled_state:
  assumes "settled w m r lg r' lg'"
  shows "state r' = state r" "settings r' = settings r" "banned r' = banned r"
  using settled_pruned [OF assms] pruned_frame by blast+

lemma broadcast_and_prune_frame:
  assumes "room_wf r" and "broadcast_and_prune w m (r, lg) = (r', lg')"
  shows "state r' = state r" "settings r' = settings r" "banned r' = banned r"
    "\<exists>D. pruned D r r'"
proof -
  have s: "settled w m r lg r' lg'" by (rule broadcast_and_prune_settled [OF assms])
  show "state r' = state r" "settings r' = settings r" "banned r' = banned r" by (rule settled_state [OF s])+
  show "\<exists>D. pruned D r r'" using settled_pruned [OF s] by blast
qed

lemma broadcast_and_prune_host_ok:
  "room_wf r \<Longrightarrow> host_ok r \<Longrightarrow> broadcast_and_prune w m (r, lg) = (r', lg') \<Longrightarrow> host_ok r'"
  by (rule settled_host_ok [OF broadcast_and_prune_settled])

text \<open>A removed peer that hosted: the host changes only to a remaining client.\<close>

lemma pruned_host_cases:
  "pruned D r r' \<Longrightarrow> host_peer_id r' = host_peer_id r \<or>
     (host_peer_id r \<in> D \<and> (host_peer_id r' \<in> client_ids r' \<or> client_ids r' = {} \<and> host_peer_id r' = 0))"
  by (auto simp: pruned_def split: if_splits)

section \<open>Leaving\<close>

lemma leave_in_room_host:
  assumes wf: "room_wf r" and ok: "host_ok r" and run: "leave_in_room w pid (r, lg) = (r', lg')"
  shows "host_ok r'"
proof -
  let ?r0 = "remove_member pid r"
  obtain r1 lg1 where b: "broadcast_and_prune w (PeerLeft pid) (?r0, lg) = (r1, lg1)" by fastforce
  have wf0: "room_wf ?r0" using wf by simp
  from broadcast_and_prune_frame(4) [OF wf0 b] obtain D where p: "pruned D ?r0 r1" by blast
  have wf1: "room_wf r1" by (rule pruned_wf [OF p])
  show ?thesis
  proof (cases "host_peer_id r1 = pid")
    case True
    show ?thesis
    proof (cases "hm_first_key (clients r1)")
      case None
      with True b run have "r' = r1" by (simp add: leave_in_room_def)
      moreover have "client_ids r1 = {}" using None by (simp only: client_ids_def hm_first_key_None)
      ultimately show ?thesis by (simp add: host_ok_def)
    next
      case (Some h)
      with True b run have b2: "broadcast_and_prune w (RoomEvent (HostTransferred h))
          (r1\<lparr>host_peer_id := h\<rparr>, lg1) = (r', lg')" by (simp add: leave_in_room_def)
      have "h \<in> client_ids r1" unfolding client_ids_def by (rule hm_first_key_SomeD [OF Some])
      then have "host_ok (r1\<lparr>host_peer_id := h\<rparr>)" by (simp add: host_ok_def)
      from broadcast_and_prune_host_ok [OF _ this b2] wf1 show ?thesis by simp
    qed
  next
    case False
    with b run have r': "r' = r1" by (simp add: leave_in_room_def)
    have h0: "host_peer_id ?r0 = host_peer_id r" by (simp add: remove_member_def)
    show ?thesis
    proof (cases "host_peer_id r = pid")
      case True
      with False h0 have "host_peer_id ?r0 \<in> D" using p by (auto simp: pruned_def)
      with pruned_host_cases [OF p] False True h0 r' show ?thesis by (auto simp: host_ok_def)
    next
      case False
      with ok have "host_ok ?r0" using h0 by (auto simp: host_ok_def)
      with r' show ?thesis using pruned_host_ok [OF p] by simp
    qed
  qed
qed

lemma leave_in_room_state:
  assumes wf: "room_wf r" and run: "leave_in_room w pid (r, lg) = (r', lg')"
  shows "state r' = state r"
proof -
  let ?r0 = "remove_member pid r"
  obtain r1 lg1 where b: "broadcast_and_prune w (PeerLeft pid) (?r0, lg) = (r1, lg1)" by fastforce
  have wf0: "room_wf ?r0" using wf by simp
  note f1 = broadcast_and_prune_frame [OF wf0 b]
  then have s1: "state r1 = state r" "room_wf r1" using pruned_wf by (auto simp: remove_member_def)
  show ?thesis
  proof (cases "host_peer_id r1 = pid \<and> hm_first_key (clients r1) \<noteq> None")
    case True
    then obtain h where "broadcast_and_prune w (RoomEvent (HostTransferred h))
        (r1\<lparr>host_peer_id := h\<rparr>, lg1) = (r', lg')"
      using b run by (auto simp: leave_in_room_def)
    from broadcast_and_prune_frame(1) [OF _ this] s1 show ?thesis by simp
  next
    case False
    with b run have "r' = r1" by (auto simp: leave_in_room_def split: if_splits option.splits)
    with s1 show ?thesis by simp
  qed
qed

section \<open>The contract\<close>

locale host_operation = room_operation +
  assumes act_host: "room_wf r \<Longrightarrow> host_ok r \<Longrightarrow> act (r, lg) = (out, (r', lg')) \<Longrightarrow> host_ok r'"
begin

text \<open>After any number of such operations the host still is a client, if there is one.\<close>

lemma act_host_iterated:
  "room_wf r \<Longrightarrow> host_ok r \<Longrightarrow>
   room_wf (fst (((\<lambda>ctx. snd (act ctx)) ^^ n) (r, lg))) \<and> host_ok (fst (((\<lambda>ctx. snd (act ctx)) ^^ n) (r, lg)))"
proof (induction n)
  case (Suc n)
  obtain r1 lg1 where one: "((\<lambda>ctx. snd (act ctx)) ^^ n) (r, lg) = (r1, lg1)" by fastforce
  obtain out r2 lg2 where two: "act (r1, lg1) = (out, (r2, lg2))" by (metis surj_pair)
  from Suc one have "room_wf r1" "host_ok r1" by simp_all
  with act_host [OF _ _ two] act_keeps [OF _ two] keeps_wf one two show ?case by auto
qed simp

end

interpretation leave_host: host_operation "\<lambda>ctx. ([], leave_in_room w pid ctx)"
  by (intro host_operation.intro room_operation_leave host_operation_axioms.intro)
    (auto intro: leave_in_room_host)

lemma move_in_room_cases:
  assumes run: "move_in_room w pid blob (r, lg) = (out, (r', lg'))"
  shows "r' = r \<and> lg' = lg \<and> (\<exists>e. out = [MoveRejected e]) \<or>
    out = [MoveAccepted] \<and> host_peer_id r = pid \<and>
    broadcast_state_update_and_prune w (r\<lparr>state := blob\<rparr>, lg) = (r', lg')"
  using run by (auto simp: move_in_room_def Let_def split: if_splits)

interpretation move_host: host_operation "move_in_room w pid blob"
proof (intro host_operation.intro room_operation_move host_operation_axioms.intro)
  fix r :: room and lg out r' lg'
  assume wf: "room_wf r" and ok: "host_ok r" and run: "move_in_room w pid blob (r, lg) = (out, (r', lg'))"
  from move_in_room_cases [OF run] show "host_ok r'"
  proof (elim disjE conjE)
    assume "broadcast_state_update_and_prune w (r\<lparr>state := blob\<rparr>, lg) = (r', lg')"
    with wf have "settled w (StateUpdate blob) (r\<lparr>state := blob\<rparr>) lg r' lg'"
      by (auto dest!: broadcast_state_update_and_prune_settled [rotated])
    moreover have "host_ok (r\<lparr>state := blob\<rparr>)" using ok by (simp add: host_ok_def)
    ultimately show "host_ok r'" by (rule settled_host_ok)
  qed (use ok in simp)
qed

interpretation input_host: host_operation "input_in_room w pid blob"
  by (intro host_operation.intro room_operation_input host_operation_axioms.intro)
    (auto simp: input_in_room_def split: if_splits option.splits)

interpretation state_host: host_operation state_in_room
  by (intro host_operation.intro room_operation_state host_operation_axioms.intro)
    (auto simp: state_in_room_def)

section \<open>Room control\<close>

text \<open>
  What each control does to the room before the broadcast that follows it, if one does:
  \<open>control_effect r rc r1 m\<close>.
\<close>

fun control_effect :: "room \<Rightarrow> room_control \<Rightarrow> room \<times> server_message option" where
  "control_effect r (UpdateSettings st) =
     (r\<lparr>settings := st\<rparr>, Some (RoomEvent (SettingsChanged (st\<lparr>password := None\<rparr>))))"
| "control_effect r (SetPublic b) = (r\<lparr>settings := (settings r)\<lparr>is_public := b\<rparr>\<rparr>, None)"
| "control_effect r (AcceptPeer pid) =
     (case hm_get (pending r) pid of
        Some info \<Rightarrow> (r\<lparr>pending := hm_remove pid (pending r), clients := hm_insert pid info (clients r)\<rparr>,
                      Some (PeerJoined pid (hash_str (client_hash info)) (display_name info)))
      | None \<Rightarrow> (r, None))"
| "control_effect r (DenyPeer pid) = (r\<lparr>pending := hm_remove pid (pending r)\<rparr>, None)"
| "control_effect r (Kick pid) = (remove_client pid r, Some (PeerLeft pid))"
| "control_effect r (Ban pid) =
     ((remove_client pid r)\<lparr>banned := (case hm_get (clients r) pid of
          Some info \<Rightarrow> insert (client_hash info) (banned r) | None \<Rightarrow> banned r)\<rparr>, Some (PeerLeft pid))"
| "control_effect r (TransferHost pid) =
     (if pid \<in> client_ids r then (r\<lparr>host_peer_id := pid\<rparr>, Some (RoomEvent (HostTransferred pid))) else (r, None))"
| "control_effect r Leave = (r, None)"
| "control_effect r (CreateRoom _) = (r, None)"

lemma hm_remove_absent: "hm_get m k = None \<Longrightarrow> hm_remove k m = m"
  by (simp add: hm_remove_def hm_get_def map_of_eq_None_iff delete_id)

lemma remove_client_absent: "hm_get (clients r) pid = None \<Longrightarrow> remove_client pid r = r"
  by (simp add: remove_client_def hm_remove_absent)

text \<open>
  A control by the host is its effect, then the pruning broadcast (of a message, to a log that
  may already hold the notice to an evicted or denied peer).
\<close>

lemma control_in_room_effect:
  assumes host: "host_peer_id r = me"
    and run: "control_in_room w me rc (r, lg) = (out, (r', lg'))"
    and eff: "control_effect r rc = (r1, mo)"
  shows "out = []" and "mo = None \<Longrightarrow> r' = r1"
    and "mo = Some m \<Longrightarrow> \<exists>lg1. broadcast_and_prune w m (r1, lg1) = (r', lg')"
  using run eff host
  by (cases rc; force simp: remove_client_def hm_remove_absent client_ids_def split: option.splits if_splits)+

lemma control_effect_frame:
  assumes "control_effect r rc = (r1, mo)"
  shows "state r1 = state r" "app_key r1 = app_key r" "code r1 = code r"
    "banned r \<subseteq> banned r1"
  using assms by (cases rc; auto simp: remove_client_def split: option.splits if_splits)+

lemma control_effect_wf:
  assumes wf: "room_wf r" and eff: "control_effect r rc = (r1, mo)"
  shows "room_wf r1"
proof (cases rc)
  case (AcceptPeer pid)
  with eff wf keeps_wf [OF keeps_accept [OF wf]] show ?thesis by (auto split: option.splits)
next
  case (DenyPeer pid)
  with eff keeps_wf [OF keeps_remove_pending [OF wf]] show ?thesis by auto
qed (use eff wf in \<open>auto split: if_splits option.splits\<close>)

text \<open>The host evicting itself is the one control that leaves it outside the client table.\<close>

lemma control_effect_host_ok:
  assumes "room_wf r" and "host_peer_id r \<in> client_ids r" and "control_effect r rc = (r1, mo)"
    and "rc \<noteq> Kick (host_peer_id r)" and "rc \<noteq> Ban (host_peer_id r)"
  shows "host_ok r1"
proof (cases rc)
  case (AcceptPeer pid)
  show ?thesis
  proof (cases "hm_get (pending r) pid")
    case None
    with AcceptPeer assms(2,3) show ?thesis by (auto simp: host_ok_def)
  next
    case (Some info)
    have "hm_ok (clients r)" by (rule room_wfD(1) [OF assms(1)])
    with AcceptPeer assms(2,3) Some show ?thesis
      by (auto simp: host_ok_def client_ids_def hm_get_insert)
  qed
next
  case (Kick pid)
  with assms(2-4) have "r1 = remove_client pid r" "pid \<noteq> host_peer_id r" by auto
  moreover have "host_peer_id (remove_client pid r) = host_peer_id r" by (simp add: remove_client_def)
  ultimately show ?thesis using assms(2) by (auto simp: host_ok_def)
next
  case (Ban pid)
  with assms(3,5) have "client_ids r1 = client_ids r - {pid}" "host_peer_id r1 = host_peer_id r"
    "pid \<noteq> host_peer_id r" by (auto simp: remove_client_def client_ids_def split: if_splits)
  with assms(2) show ?thesis by (auto simp: host_ok_def)
qed (use assms(2,3) in \<open>auto simp: host_ok_def split: if_splits\<close>)

lemma control_in_room_host_ok:
  assumes wf: "room_wf r" and ok: "host_peer_id r \<in> client_ids r"
    and run: "control_in_room w me rc (r, lg) = (out, (r', lg'))"
    and rc: "rc \<noteq> Kick me" "rc \<noteq> Ban me"
  shows "host_ok r'"
proof (cases "host_peer_id r = me")
  case False
  with run ok show ?thesis by (simp add: host_ok_def)
next
  case True
  obtain r1 mo where eff: "control_effect r rc = (r1, mo)" by fastforce
  have ok1: "host_ok r1" by (rule control_effect_host_ok [OF wf ok eff]) (use True rc in simp_all)
  show ?thesis
  proof (cases mo)
    case None
    with control_in_room_effect(2) [OF True run eff] ok1 show ?thesis by simp
  next
    case (Some m)
    with control_in_room_effect(3) [OF True run eff] obtain lg1 where
      "broadcast_and_prune w m (r1, lg1) = (r', lg')" by blast
    with broadcast_and_prune_host_ok [OF control_effect_wf [OF wf eff] ok1] show ?thesis by blast
  qed
qed

lemma control_in_room_state:
  assumes wf: "room_wf r" and run: "control_in_room w me rc (r, lg) = (out, (r', lg'))"
  shows "state r' = state r"
proof (cases "host_peer_id r = me")
  case False
  with run show ?thesis by simp
next
  case True
  obtain r1 mo where eff: "control_effect r rc = (r1, mo)" by fastforce
  note f = control_effect_frame(1) [OF eff]
  show ?thesis
  proof (cases mo)
    case None
    with control_in_room_effect(2) [OF True run eff] f show ?thesis by simp
  next
    case (Some m)
    with control_in_room_effect(3) [OF True run eff] obtain lg1 where
      "broadcast_and_prune w m (r1, lg1) = (r', lg')" by blast
    from broadcast_and_prune_frame(1) [OF control_effect_wf [OF wf eff] this] f show ?thesis by simp
  qed
qed

text \<open>Eviction of a client: it is gone, and the host changes only if the broadcast lost the host.\<close>

lemma control_evict:
  assumes wf: "room_wf r" and host: "host_peer_id r = me" and rc: "rc = Kick pid \<or> rc = Ban pid"
    and run: "control_in_room w me rc (r, lg) = (out, (r', lg'))"
  shows "pid \<notin> client_ids r' \<and> (\<exists>r1 D. control_effect r rc = (r1, Some (PeerLeft pid)) \<and> pruned D r1 r')"
proof -
  obtain r1 where eff: "control_effect r rc = (r1, Some (PeerLeft pid))" using rc by (elim disjE) simp_all
  with control_in_room_effect(3) [OF host run eff] obtain lg1 where
    b: "broadcast_and_prune w (PeerLeft pid) (r1, lg1) = (r', lg')" by blast
  from broadcast_and_prune_frame(4) [OF control_effect_wf [OF wf eff] b] obtain D where
    p: "pruned D r1 r'" by blast
  have "client_ids r1 = client_ids r - {pid}"
    using eff rc by (elim disjE) (auto simp: client_ids_def remove_client_def split: if_splits)
  with p have "pid \<notin> client_ids r'" by (simp add: pruned_client_ids)
  with eff p show ?thesis by blast
qed

end
