(* ===== verification/Scenario.thy ===== *)
theory Scenario
  imports Hosting
begin

text \<open>
  Concrete rooms and worlds on which the theorems of the development are applied: a room of
  two clients hosted by peer 1, the same room with a waiting peer, and a world in which the
  channels of given connections are closed.
\<close>

definition demo_world :: "conn_id list \<Rightarrow> world" where
  "demo_world gone = quiet_world\<lparr>w_try_send := (\<lambda>lg c m. if c \<in> set gone then Closed else Sent)\<rparr>"

definition demo_info :: "conn_id \<Rightarrow> u8 \<Rightarrow> client_info" where
  "demo_info i sd = \<lparr>client_hash = ClientHash [char_of (48 + i)], display_name = None, tx = i, side = sd\<rparr>"

definition demo_table :: "(peer_id \<times> client_info) list \<Rightarrow> (peer_id, client_info) hash_map" where
  "demo_table es = \<lparr>hash_builder = (\<lambda>_. []), table = es\<rparr>"

definition demo_room :: "(peer_id \<times> client_info) list \<Rightarrow> (peer_id \<times> client_info) list \<Rightarrow> room_settings \<Rightarrow> room" where
  "demo_room cs ps st =
     \<lparr>app_key = ''pong'', code = RoomCode ''ABC'', host_peer_id = 1, clients = demo_table cs,
      pending = demo_table ps, state = [7], settings = st, banned = {}, next_peer_id = 9\<rparr>"

abbreviation "entry1 \<equiv> (1, demo_info 10 0)"
abbreviation "entry2 \<equiv> (2, demo_info 20 1)"
abbreviation "entry3 \<equiv> (3, demo_info 30 2)"

definition two_clients :: room where
  "two_clients = demo_room [entry1, entry2] [] default_settings"

definition host_and_pending :: room where
  "host_and_pending = demo_room [entry1] [entry3] (default_settings\<lparr>accept_required := True\<rparr>)"

lemmas demo_defs = demo_room_def demo_table_def demo_info_def demo_world_def quiet_world_def default_settings_def

lemma hm_get_demo [simp]: "hm_get (demo_table es) = map_of es"
  by (simp add: fun_eq_iff hm_get_def demo_table_def)

lemma demo_room_simps [simp]:
  "clients (demo_room cs ps st) = demo_table cs" "pending (demo_room cs ps st) = demo_table ps"
  "host_peer_id (demo_room cs ps st) = 1" "settings (demo_room cs ps st) = st"
  "state (demo_room cs ps st) = [7]" "banned (demo_room cs ps st) = {}"
  "next_peer_id (demo_room cs ps st) = 9"
  "app_key (demo_room cs ps st) = ''pong''" "code (demo_room cs ps st) = RoomCode ''ABC''"
  by (simp_all add: demo_room_def)

lemma demo_ids [simp]:
  "client_ids (demo_room cs ps st) = fst ` set cs"
  "pending_ids (demo_room cs ps st) = fst ` set ps"
  "members (demo_room cs ps st) = fst ` set cs \<union> fst ` set ps"
proof -
  show c: "client_ids (demo_room cs ps st) = fst ` set cs"
    and p: "pending_ids (demo_room cs ps st) = fst ` set ps"
    by (simp_all add: client_ids_def pending_ids_def dom_map_of_conv_image_fst)
  from c p show "members (demo_room cs ps st) = fst ` set cs \<union> fst ` set ps" by (simp add: members_def)
qed

lemma demo_room_wf:
  "room_wf (demo_room cs ps st) \<longleftrightarrow> distinct (map fst cs) \<and> distinct (map fst ps) \<and>
     fst ` set cs \<inter> fst ` set ps = {} \<and> 0 \<notin> fst ` set cs \<union> fst ` set ps"
  by (simp add: room_wf_def hm_ok_def hm_keys_def demo_table_def [of cs] demo_table_def [of ps])

lemma two_clients_wf [simp]: "room_wf two_clients"
  by (simp add: two_clients_def demo_room_wf)

lemma two_clients_ids [simp]: "client_ids two_clients = {1, 2}" "members two_clients = {1, 2}"
  "host_peer_id two_clients = 1"
  by (auto simp: two_clients_def)

lemma host_and_pending_wf [simp]: "room_wf host_and_pending"
  by (simp add: host_and_pending_def demo_room_wf)

lemma host_and_pending_ids [simp]: "client_ids host_and_pending = {1}" "pending_ids host_and_pending = {3}"
  "members host_and_pending = {1, 3}" "host_peer_id host_and_pending = 1"
  by (auto simp: host_and_pending_def)

end
