(* ===== verification/Room_Guarantees.thy ===== *)
theory Room_Guarantees
  imports Scenario
begin

text \<open>
  What one room guarantees, operation by operation: broadcasts, departures, joins, moves,
  inputs and the host's controls, with the situations in which a room loses its host.
\<close>

section \<open>Broadcasts and departures\<close>




text \<open>C24: After a peer has left a room whose host is one of its clients (or that has no client), the peer
  is no member, nobody new is, the game state is unchanged, and the host is a remaining client if
  one is left.\<close>

theorem leave_hands_over:
  assumes "room_wf r" and "host_ok r" and "leave_in_room w pid (r, lg) = (r', lg')"
  shows "pid \<notin> members r' \<and> members r' \<subseteq> members r \<and> room_wf r' \<and> state r' = state r \<and>
    (client_ids r' = {} \<or> host_peer_id r' \<in> client_ids r')"
proof -
  have k: "keeps (remove_member pid r) r'" using leave_in_room_gone [OF assms(1,3)] by blast
  have "members (remove_member pid r) = members r - {pid}"
    by (simp add: dom_member_info [symmetric] member_info_remove_member)
  with keeps_members [OF k] have "pid \<notin> members r'" "members r' \<subseteq> members r" by auto
  then show ?thesis
    using keeps_wf [OF k] leave_in_room_state [OF assms(1,3)] leave_in_room_host [OF assms]
    by (simp add: host_ok_def)
qed

theorem leave_hands_over_witness:
  "1 \<notin> members (fst (leave_in_room (demo_world []) 1 (two_clients, []))) \<and>
   host_peer_id (fst (leave_in_room (demo_world []) 1 (two_clients, []))) = 2"
proof -
  have h: "host_ok two_clients" by (simp add: host_ok_def)
  have run: "leave_in_room (demo_world []) 1 (two_clients, []) =
     (two_clients\<lparr>clients := demo_table [entry2], host_peer_id := 2\<rparr>,
      [(20, PeerLeft 1, Sent), (20, RoomEvent (HostTransferred 2), Sent)])"
    by (simp add: leave_in_room_def broadcast_and_prune_def broadcast_retain_connected_def
        prune_and_announce_def announce_host_def two_clients_def demo_defs try_send_def
        fix_host_def remove_member_def hm_remove_def hm_first_key_def Let_def)
  from leave_hands_over [OF two_clients_wf h run] run show ?thesis by simp
qed

section \<open>Joining\<close>

text \<open>C35: \<open>next_peer_id\<close> hands out a non-zero id that no member has, and gives up only when every
  non-zero 32-bit id is taken; nothing but the counter changes.\<close>

theorem peer_id_allocation:
  assumes "room_wf r" and "alloc_peer_id r = (res, r')"
  shows "(case res of Some pid \<Rightarrow> pid \<noteq> 0 \<and> pid \<notin> members r | None \<Rightarrow> members r = - {0}) \<and>
    r' = r\<lparr>next_peer_id := next_peer_id r'\<rparr> \<and> next_peer_id r' \<noteq> 0"
proof (cases res)
  case None
  with assms(2) alloc_peer_id_None have "pid \<in> members r" if "pid \<noteq> 0" for pid using that by blast
  moreover have "0 \<notin> members r" using assms(1) by (simp add: room_wf_def)
  ultimately have "members r = - {0}" by auto
  with None alloc_peer_id_frame [OF assms(2)] alloc_peer_id_next [OF assms(2)] show ?thesis by simp
next
  case (Some pid)
  with assms(2) alloc_peer_id_fresh [OF assms(1)] have "pid \<noteq> 0 \<and> pid \<notin> members r" by simp
  with Some alloc_peer_id_frame [OF assms(2)] alloc_peer_id_next [OF assms(2)] show ?thesis by simp
qed

theorem peer_id_allocation_witness:
  "(9 :: peer_id) \<noteq> 0 \<and> 9 \<notin> members two_clients"
proof -
  have "\<not> in_use two_clients 9" "next_peer_id two_clients = 9"
    by (simp_all add: in_use_members) (simp add: two_clients_def)
  then have "alloc_peer_id two_clients = (Some 9, two_clients\<lparr>next_peer_id := 10\<rparr>)"
    by (simp add: alloc_peer_id_def saturating_add_def Let_def)
  from peer_id_allocation [OF two_clients_wf this] show ?thesis by simp
qed

text \<open>C23: The outcome of a join is decided in this order: ban, capacity, password, free id.  A
  refused join sends nothing and changes at most the id counter; with none of these reasons
  the join succeeds.\<close>

theorem join_room_outcome:
  assumes "room_wf r" and "join_room w c i h d pw (r, lg) = (res, (r', lg'))"
  shows "if is_banned r (ClientHash h) then res = Inl ''banned from this room'' \<and> (r', lg') = (r, lg)
    else if is_full r then res = Inl ''room full'' \<and> (r', lg') = (r, lg)
    else if \<not> password_ok r pw then res = Inl ''invalid or missing room password'' \<and> (r', lg') = (r, lg)
    else if members r = - {0} then res = Inl ''room full'' \<and> (r', lg') = (r\<lparr>next_peer_id := next_peer_id r'\<rparr>, lg)
    else \<exists>pid joined. res = Inr (pid, joined)"
proof -
  obtain a r1 where al: "alloc_peer_id r = (a, r1)" by fastforce
  show ?thesis
  proof (cases a)
    case None
    with al alloc_peer_id_None have "pid \<in> members r" if "pid \<noteq> 0" for pid using that by blast
    moreover have "0 \<notin> members r" using assms(1) by (simp add: room_wf_def)
    ultimately have "members r = - {0}" by auto
    with None al alloc_peer_id_frame [OF al] assms(2) show ?thesis
      by (auto simp: join_room_def split: if_splits)
  next
    case (Some pid)
    with al alloc_peer_id_fresh [OF assms(1)] have "pid \<noteq> 0 \<and> pid \<notin> members r" by simp
    then have "members r \<noteq> - {0}" by auto
    with Some al assms(2) show ?thesis
      by (auto simp: join_room_def Let_def split: if_splits prod.splits)
  qed
qed

theorem join_room_outcome_witness:
  "fst (join_room quiet_world (RoomCode ''ABC'') 30 ''x'' None (Some ''no'')
     (two_clients\<lparr>settings := default_settings\<lparr>password := Some ''yes''\<rparr>\<rparr>, [])) =
   Inl ''invalid or missing room password''"
  (is "fst (join_room _ _ _ _ _ _ (?r, [])) = _")
proof -
  obtain res r' lg' where
    run: "join_room quiet_world (RoomCode ''ABC'') 30 ''x'' None (Some ''no'') (?r, []) = (res, (r', lg'))"
    by (metis surj_pair)
  have "room_wf ?r" by simp
  from join_room_outcome [OF this run] run show ?thesis
    by (simp add: is_banned_def is_full_def password_ok_def two_clients_def default_settings_def or_empty_def)
qed

text \<open>C9: A successful join adds exactly the newcomer, under a fresh id and on its own channel; it
  becomes the host if the room had no member, waits if the room has members and requires
  acceptance, and is an accepted client otherwise.  The reply shows the host and settings
  without the password; the other clients are told unless the newcomer waits.\<close>

theorem join_room_admits:
  assumes "room_wf r" and "join_room w c i h d pw (r, lg) = (Inr (pid, joined), (r', lg'))"
  shows "room_wf r' \<and> pid \<noteq> 0 \<and> pid \<notin> members r \<and>
    member_info r' = (member_info r)(pid \<mapsto>
      \<lparr>client_hash = ClientHash h, display_name = d, tx = i, side = next_available_side r\<rparr>) \<and>
    host_peer_id r' = (if members r = {} then pid else host_peer_id r) \<and>
    (pid \<in> client_ids r' \<longleftrightarrow> members r = {} \<or> \<not> accept_required (settings r)) \<and>
    state r' = state r \<and> settings r' = settings r \<and> banned r' = banned r \<and>
    joined = Joined c pid (host_peer_id r') (next_available_side r) ((settings r)\<lparr>password := None\<rparr>)
      (if state r = [] then None else Some (state r)) \<and>
    (\<exists>ex. lg' = lg @ ex \<and> log_msgs ex \<subseteq> {PeerJoined pid h d} \<and>
       (if pid \<in> client_ids r'
        then \<forall>q info. hm_get (clients r') q = Some info \<and> q \<noteq> pid \<longrightarrow>
               (\<exists>res. (tx info, PeerJoined pid h d, res) \<in> set ex)
        else ex = []))"
proof -
  note j = join_room_Inr [OF assms]
  have "pid \<notin> client_ids r" using j(1) by (auto simp: admitted_def members_def)
  with j(1) have "pid \<in> client_ids r' \<longleftrightarrow> members r = {} \<or> \<not> accept_required (settings r)"
    by (simp add: admitted_def)
  with j(1,3,4) show ?thesis unfolding admitted_def newcomer_def by blast
qed

lemma demo_place:
  "hm_insert 9 info (demo_table [entry1, entry2]) = demo_table [(9, info), entry1, entry2]"
  by (simp add: demo_table_def hm_insert_def hm_contains_key_def hm_get_def Let_def del: hm_contains_key_dom)
lemma demo_notify:
  "notify_joined quiet_world 9 m (table (demo_table [(9, info), entry1, entry2])) [] = [(10, m, Sent), (20, m, Sent)]"
  by (simp add: demo_table_def try_send_def quiet_world_def demo_info_def Let_def)
lemma demo_join:
  "join_room quiet_world (RoomCode ''ABC'') 40 ''x'' None None (two_clients, []) =
     (Inr (9, Joined (RoomCode ''ABC'') 9 1 2 default_settings (Some [7])),
      (two_clients\<lparr>next_peer_id := 10, clients := demo_table
         [(9, \<lparr>client_hash = ClientHash ''x'', display_name = None, tx = 40, side = 2\<rparr>), entry1, entry2]\<rparr>,
       [(10, PeerJoined 9 ''x'' None, Sent), (20, PeerJoined 9 ''x'' None, Sent)]))"
proof -
  have "\<not> in_use two_clients 9" "next_peer_id two_clients = 9"
    by (simp_all add: in_use_members) (simp add: two_clients_def)
  then have al: "alloc_peer_id two_clients = (Some 9, two_clients\<lparr>next_peer_id := 10\<rparr>)"
    by (simp add: alloc_peer_id_def saturating_add_def Let_def)
  have sd: "next_available_side two_clients = 2" by code_simp
  have ok: "\<not> is_banned two_clients (ClientHash ''x'')" "\<not> is_full two_clients" "password_ok two_clients None"
    by (simp_all add: is_banned_def is_full_def password_ok_def two_clients_def default_settings_def)
  have cl: "clients two_clients = demo_table [entry1, entry2]" "accept_required default_settings = False"
     "settings two_clients = default_settings" "state two_clients = [7]" "default_settings\<lparr>password := None\<rparr> = default_settings"
    by (simp_all add: two_clients_def default_settings_def)
  show ?thesis
    by (simp add: join_room_def ok al sd admit_peer_def place_peer_def room_is_empty_members Let_def cl demo_place demo_notify)
qed

theorem join_room_admits_witness:
  "next_available_side two_clients = 2 \<and> (9 :: peer_id) \<notin> members two_clients"
  using join_room_admits [OF two_clients_wf demo_join] by simp

text \<open>C33: A join never takes the room over its capacity.\<close>

theorem join_respects_capacity:
  assumes "room_wf r" and "join_room w c i h d pw (r, lg) = (Inr x, (r', lg'))"
    and "max_players (settings r) \<noteq> 0" and "card (members r) < 2 ^ 32"
  shows "card (members r') \<le> unat (max_players (settings r'))"
proof -
  obtain pid joined where x: "x = (pid, joined)" by fastforce
  note j = join_room_Inr [OF assms(1) assms(2) [unfolded x]]
  have "members r' = insert pid (members r)" "settings r' = settings r"
    using j(1) by (simp_all add: admitted_def dom_member_info [symmetric])
  moreover have "card (members r) < unat (max_players (settings r))"
    using not_full_card [OF assms(1) _ assms(3)] j(2) assms(4) by simp
  moreover have "card (insert pid (members r)) \<le> Suc (card (members r))" by (simp add: card_insert_if)
  ultimately show ?thesis by simp
qed

definition limited_room :: room where
  "limited_room = two_clients\<lparr>settings := default_settings\<lparr>max_players := 3\<rparr>\<rparr>"

lemma limited_room_wf [simp]: "room_wf limited_room" "members limited_room = {1, 2}"
  by (simp_all add: limited_room_def)

theorem join_respects_capacity_witness:
  "\<exists>r'. card (members r') \<le> unat (max_players (settings r')) \<and> max_players (settings r') = 3"
proof -
  obtain res r' lg' where
    run: "join_room quiet_world (RoomCode ''ABC'') 30 ''x'' None None (limited_room, []) = (res, (r', lg'))"
    by (metis surj_pair)
  have ok: "\<not> is_banned limited_room (ClientHash ''x'')" "\<not> is_full limited_room" "password_ok limited_room None"
    by (simp_all add: is_banned_def is_full_def password_ok_def limited_room_def two_clients_def demo_defs
        hm_len_def)
  have "(4 :: peer_id) \<noteq> 0" "4 \<notin> members limited_room" by simp_all
  from join_room_succeeds [OF limited_room_wf(1) ok this] run have "\<exists>x. res = Inr x" by (metis prod.inject)
  then obtain pid joined where "res = Inr (pid, joined)" by auto
  note run = run [unfolded this]
  from join_room_Inr(1) [OF limited_room_wf(1) run] have "settings r' = settings limited_room"
    by (simp add: admitted_def)
  then have "max_players (settings r') = 3" by (simp add: limited_room_def)
  with join_respects_capacity [OF limited_room_wf(1) run] show ?thesis
    by (intro exI [of _ r']) (simp add: limited_room_def)
qed

text \<open>The largest side and the sides in use, in terms of the members.\<close>

lemma unat_max_side:
  "unat (max_side r) = (if max_players (settings r) = 0 then 255 else min (unat (max_players (settings r))) 255)"
proof (cases "max_players (settings r) = 0")
  case False
  have m: "unat (min (max_players (settings r)) 255) = min (unat (max_players (settings r))) 255"
    by (simp add: min_def word_le_nat_alt)
  have "unat (max_side r) = unat (min (max_players (settings r)) 255) mod 256"
    using False by (simp add: max_side_def unsigned_ucast_eq take_bit_eq_mod)
  also have "\<dots> = min (unat (max_players (settings r))) 255" by (simp add: m)
  finally show ?thesis using False by simp
qed (simp add: max_side_def)




text \<open>C34: A newcomer's side is one no member has, and not larger than the number of members,
  as long as the room has fewer than 256.\<close>

theorem join_side_free:
  assumes "room_wf r" and "join_room w c i h d pw (r, lg) = (Inr (pid, joined), (r', lg'))"
    and "card (members r) < 256"
  shows "side (the (member_info r' pid)) \<notin> used_sides r \<and>
    unat (side (the (member_info r' pid))) \<le> card (members r)"
proof -
  note j = join_room_Inr [OF assms(1,2)]
  have le: "card (members r) \<le> unat (max_side r)"
  proof (cases "max_players (settings r) = 0")
    case True
    with assms(3) show ?thesis by (simp add: unat_max_side)
  next
    case False
    with not_full_card [OF assms(1)] j(2) assms(3)
    have "card (members r) < unat (max_players (settings r))" by simp
    with False assms(3) show ?thesis by (simp add: unat_max_side)
  qed
  have "side (the (member_info r' pid)) = next_available_side r"
    using j(1) by (simp add: admitted_def newcomer_def)
  with next_available_side_fresh [OF assms(1) le_refl le] show ?thesis by simp
qed

theorem join_side_free_witness:
  "(2 :: u8) \<notin> used_sides two_clients \<and> unat (2 :: u8) \<le> card (members two_clients)"
proof -
  have "side (the (member_info (two_clients\<lparr>next_peer_id := 10, clients := demo_table
       [(9, \<lparr>client_hash = ClientHash ''x'', display_name = None, tx = 40, side = 2\<rparr>), entry1, entry2]\<rparr>) 9)) = 2"
    by (simp add: member_info_def)
  with join_side_free [OF two_clients_wf demo_join] show ?thesis by simp
qed

section \<open>Rooms without a host\<close>

text \<open>A peer that joins a room that has members and requires acceptance waits, and nobody is
  told, not even the host who would have to accept it.\<close>

theorem pending_join_unannounced:
  assumes "room_wf r" and "join_room w c i h d pw (r, lg) = (Inr (pid, joined), (r', lg'))"
    and "members r \<noteq> {}" and "accept_required (settings r)"
  shows "pid \<in> pending_ids r' \<and> pid \<notin> client_ids r' \<and> client_ids r' = client_ids r \<and> lg' = lg"
proof -
  note j = join_room_Inr [OF assms(1,2)]
  have c: "client_ids r' = client_ids r" "pid \<notin> client_ids r'"
    using j(1) assms(3,4) by (auto simp: admitted_def members_def)
  moreover have "pid \<in> members r'"
    using j(1) by (simp add: admitted_def dom_member_info [symmetric])
  moreover have "lg' = lg" using j(4) c(2) by (auto split: if_splits)
  ultimately show ?thesis by (auto simp: members_def)
qed

lemma demo_pending_join:
  "\<exists>r' lg' x. join_room quiet_world (RoomCode ''ABC'') 40 ''x'' None None (host_and_pending, []) = (Inr x, (r', lg'))"
proof -
  have ok: "\<not> is_banned host_and_pending (ClientHash ''x'')" "\<not> is_full host_and_pending"
    "password_ok host_and_pending None"
    by (simp_all add: is_banned_def is_full_def password_ok_def host_and_pending_def default_settings_def)
  have "(4 :: peer_id) \<noteq> 0" "4 \<notin> members host_and_pending" by simp_all
  from join_room_succeeds [OF host_and_pending_wf ok this] show ?thesis by metis
qed

theorem pending_join_unannounced_witness:
  "\<exists>r' pid. client_ids r' = {1} \<and> pid \<in> pending_ids r' \<and> pid \<notin> client_ids r'"
proof -
  obtain r' lg' pid joined where
    run: "join_room quiet_world (RoomCode ''ABC'') 40 ''x'' None None (host_and_pending, []) = (Inr (pid, joined), (r', lg'))"
    using demo_pending_join by (metis surj_pair)
  have "members host_and_pending \<noteq> {}" "accept_required (settings host_and_pending)"
    by simp (simp add: host_and_pending_def)
  from pending_join_unannounced [OF host_and_pending_wf run this] show ?thesis
    by (intro exI [of _ r'] exI [of _ pid]) auto
qed

text \<open>A broadcast to a room without clients changes nothing.\<close>

lemma broadcast_and_prune_no_clients:
  assumes "client_ids r = {}"
  shows "broadcast_and_prune w m (r, lg) = (r, lg)"
proof -
  have "hm_is_empty (clients r)" using assms by (simp add: hm_is_empty_dom client_ids_def)
  then have "table (clients r) = []" by (simp add: hm_is_empty_def)
  then show ?thesis
    by (simp add: broadcast_and_prune_def broadcast_retain_connected_def prune_and_announce_def announce_host_def)
qed

text \<open>C29: When the only client, the host, leaves a room in which others wait, the room keeps the
  waiting peers and the id of the departed host: no member can control it, so nobody who waits can be
  accepted.  As the ids were handed out in order, a peer that joins later gets another id than the departed
  host's, so it is not host either.\<close>

theorem host_leaves_pending_stranded:
  assumes "room_wf r" and "host_peer_id r = pid" and "client_ids r = {pid}" and "pending_ids r \<noteq> {}"
    and "\<forall>p \<in> members r. p < next_peer_id r" and "leave_in_room w pid (r, lg) = (r', lg')"
  shows "client_ids r' = {} \<and> pending_ids r' = pending_ids r \<and> lg' = lg \<and> host_peer_id r' = pid \<and>
    (\<forall>q \<in> members r'. \<forall>w' rc lg1.
       control_in_room w' q rc (r', lg1) = ([Error ''forbidden or invalid''], (r', lg1))) \<and>
    (\<forall>w' c i h d pw lg1 q joined r'' lg''.
       join_room w' c i h d pw (r', lg1) = (Inr (q, joined), (r'', lg'')) \<longrightarrow>
       q \<noteq> pid \<and> host_peer_id r'' = pid \<and> pid \<notin> members r'' \<and>
       (\<forall>w'' rc lg2. control_in_room w'' q rc (r'', lg2) = ([Error ''forbidden or invalid''], (r'', lg2))))"
proof -
  let ?r0 = "remove_member pid r"
  have disj: "pid \<notin> pending_ids r" using assms(1,3) by (auto simp: room_wf_def)
  have c0: "client_ids ?r0 = {}" using assms(3) by simp
  then have "hm_first_key (clients ?r0) = None" by (simp only: client_ids_def hm_first_key_None)
  then have r': "r' = ?r0" "lg' = lg"
    using assms(6) c0 by (auto simp: leave_in_room_def broadcast_and_prune_no_clients split: if_splits)
  have pend: "pending_ids ?r0 = pending_ids r"
    using disj by (auto simp: pending_ids_def remove_member_def split: if_splits)
  have host: "host_peer_id r' = pid" using assms(2) r' by (simp add: remove_member_def)
  have mem: "members r' = pending_ids r" unfolding r' members_def c0 pend by simp
  have "control_in_room w' q rc (r', lg1) = ([Error ''forbidden or invalid''], (r', lg1))"
    if "q \<in> members r'" for q w' rc lg1
    using that mem disj host by auto
  moreover have "q \<noteq> pid \<and> host_peer_id r'' = pid \<and> pid \<notin> members r'' \<and>
      (\<forall>w'' rc lg2. control_in_room w'' q rc (r'', lg2) = ([Error ''forbidden or invalid''], (r'', lg2)))"
    if j: "join_room w' c i h d pw (r', lg1) = (Inr (q, joined), (r'', lg''))"
    for w' c i h d pw lg1 q joined r'' lg''
  proof -
    have wf': "room_wf r'" using assms(1) r' by simp
    have nx: "next_peer_id r' = next_peer_id r" using r' by (simp add: remove_member_def)
    have sub: "members r' \<subseteq> members r" "pid \<in> members r" using mem assms(3) by (auto simp: members_def)
    with assms(5) have "next_peer_id r' \<notin> members r'" "pid \<noteq> next_peer_id r'" by (auto simp: nx)
    then have al: "alloc_peer_id r' = (Some (next_peer_id r'), r'\<lparr>next_peer_id := saturating_add (next_peer_id r') 1\<rparr>)"
      by (simp add: alloc_peer_id_def in_use_members Let_def)
    from j have "q = next_peer_id r'"
      by (auto simp: join_room_def al admit_peer_def Let_def split: if_splits prod.splits)
    with \<open>pid \<noteq> next_peer_id r'\<close> have q: "q \<noteq> pid" by simp
    from join_room_Inr(1) [OF wf' j] mem assms(4) host
    have h: "host_peer_id r'' = pid" and mi: "member_info r'' = (member_info r')(q \<mapsto> newcomer r' i h d)"
      by (simp_all add: admitted_def)
    have "pid \<notin> members r'" using mem disj by simp
    with mi q have "pid \<notin> members r''" by (auto simp: dom_member_info [symmetric])
    with q h show ?thesis by simp
  qed
  ultimately show ?thesis using c0 pend r' host by blast
qed

theorem host_leaves_pending_stranded_witness:
  "client_ids (fst (leave_in_room quiet_world 1 (host_and_pending, []))) = {} \<and>
   host_peer_id (fst (leave_in_room quiet_world 1 (host_and_pending, []))) = 1"
proof -
  obtain r' lg' where run: "leave_in_room quiet_world 1 (host_and_pending, []) = (r', lg')" by fastforce
  have p: "pending_ids host_and_pending \<noteq> {}" by simp
  have ids: "\<forall>p \<in> members host_and_pending. p < next_peer_id host_and_pending"
    by (simp add: host_and_pending_def)
  note st = host_leaves_pending_stranded [OF host_and_pending_wf host_and_pending_ids(4,1) p ids run]
  have "client_ids r' = {}" by (rule st [THEN conjunct1])
  moreover have "host_peer_id r' = 1" by (rule st [THEN conjunct2, THEN conjunct2, THEN conjunct2, THEN conjunct1])
  ultimately show ?thesis by (simp add: run)
qed

section \<open>Moves\<close>

text \<open>C25: A move is refused, with the room untouched, unless it comes from the host and the room has
  its minimum of accepted clients; otherwise the blob becomes the game state and every
  remaining client is offered it (a full queue drops it).\<close>

theorem move_in_room_outcome:
  assumes "room_wf r" and "move_in_room w pid blob (r, lg) = (out, (r', lg'))"
  shows "if host_peer_id r \<noteq> pid
         then out = [MoveRejected ''only host can send moves''] \<and> r' = r \<and> lg' = lg
         else if 0 < min_players (settings r) \<and> word_of_nat (hm_len (clients r)) < min_players (settings r)
         then (\<exists>e. out = [MoveRejected e]) \<and> r' = r \<and> lg' = lg
         else out = [MoveAccepted] \<and> state r' = blob \<and> settings r' = settings r \<and> members r' \<subseteq> members r \<and>
           (\<exists>ex. lg' = lg @ ex \<and> offered_all (StateUpdate blob) ex r')"
proof (cases "host_peer_id r = pid \<and>
    \<not> (0 < min_players (settings r) \<and> word_of_nat (hm_len (clients r)) < min_players (settings r))")
  case False
  with assms(2) show ?thesis by (auto simp: move_in_room_def Let_def split: if_splits)
next
  case True
  with assms(2) have out: "out = [MoveAccepted]"
    and b: "broadcast_state_update_and_prune w (r\<lparr>state := blob\<rparr>, lg) = (r', lg')"
    by (simp_all add: move_in_room_def Let_def del: not_less)
  have wf: "room_wf (r\<lparr>state := blob\<rparr>)" using assms(1) by simp
  from broadcast_state_update_and_prune_settled [OF wf b]
  have s: "settled w (StateUpdate blob) (r\<lparr>state := blob\<rparr>) lg r' lg'" by simp
  then obtain D E ex where "pruned (D \<union> E) (r\<lparr>state := blob\<rparr>) r'" "lg' = lg @ ex"
    "offered_all (StateUpdate blob) ex r'"
    unfolding settled_def by metis
  with True out settled_state [OF s] pruned_members show ?thesis by auto
qed

theorem move_in_room_outcome_witness:
  "state (fst (snd (move_in_room quiet_world 1 [5, 6] (two_clients, [])))) = [5, 6]"
proof -
  obtain out r' lg' where run: "move_in_room quiet_world 1 [5, 6] (two_clients, []) = (out, (r', lg'))"
    by (metis surj_pair)
  have "settings two_clients = default_settings" by (simp add: two_clients_def)
  with move_in_room_outcome [OF two_clients_wf run] run show ?thesis
    by (simp add: default_settings_def)
qed

section \<open>The host's controls\<close>

text \<open>The notice to a peer that is evicted or denied, if it is there.\<close>

definition notice :: "world \<Rightarrow> send_log \<Rightarrow> room_event \<Rightarrow> client_info option \<Rightarrow> send_log" where
  "notice w lg ev io =
     (case io of None \<Rightarrow> [] | Some i \<Rightarrow> [(tx i, RoomEvent ev, w_try_send w lg (tx i) (RoomEvent ev))])"

definition control_notice :: "world \<Rightarrow> room \<Rightarrow> send_log \<Rightarrow> room_control \<Rightarrow> send_log" where
  "control_notice w r lg rc =
     (case rc of
        DenyPeer pid \<Rightarrow> notice w lg Kicked (hm_get (pending r) pid)
      | Kick pid \<Rightarrow> notice w lg Kicked (hm_get (clients r) pid)
      | Ban pid \<Rightarrow> notice w lg Banned (hm_get (clients r) pid)
      | _ \<Rightarrow> [])"

text \<open>What the remaining clients are told of a control.\<close>

definition control_message :: "room \<Rightarrow> room_control \<Rightarrow> server_message option" where
  "control_message r rc =
     (case rc of
        UpdateSettings st \<Rightarrow> Some (RoomEvent (SettingsChanged (st\<lparr>password := None\<rparr>)))
      | AcceptPeer pid \<Rightarrow>
          map_option (\<lambda>i. PeerJoined pid (hash_str (client_hash i)) (display_name i)) (hm_get (pending r) pid)
      | Kick pid \<Rightarrow> Some (PeerLeft pid)
      | Ban pid \<Rightarrow> Some (PeerLeft pid)
      | TransferHost pid \<Rightarrow> if pid \<in> client_ids r then Some (RoomEvent (HostTransferred pid)) else None
      | _ \<Rightarrow> None)"

lemma control_in_room_log:
  assumes "host_peer_id r = me" and "control_in_room w me rc (r, lg) = (out, (r', lg'))"
    and "control_effect r rc = (r1, mo)"
  shows "mo = control_message r rc"
    and "case mo of None \<Rightarrow> r' = r1 \<and> lg' = lg @ control_notice w r lg rc
       | Some m \<Rightarrow> broadcast_and_prune w m (r1, lg @ control_notice w r lg rc) = (r', lg')"
  using assms
  by (cases rc; force simp: control_message_def control_notice_def notice_def remove_client_def hm_remove_absent
      client_ids_def try_send_def Let_def split: option.splits if_splits)+

lemma control_effect_tables:
  assumes "room_wf r" and "control_effect r rc = (r1, mo)"
  shows "host_peer_id r1 = (case rc of TransferHost pid \<Rightarrow> if pid \<in> client_ids r then pid else host_peer_id r
        | _ \<Rightarrow> host_peer_id r)"
    and "hm_get (clients r1) = (case rc of
          AcceptPeer pid \<Rightarrow> (case hm_get (pending r) pid of
             None \<Rightarrow> hm_get (clients r) | Some i \<Rightarrow> (hm_get (clients r))(pid \<mapsto> i))
        | Kick pid \<Rightarrow> (hm_get (clients r))(pid := None)
        | Ban pid \<Rightarrow> (hm_get (clients r))(pid := None)
        | _ \<Rightarrow> hm_get (clients r))"
    and "hm_get (pending r1) = (case rc of
          AcceptPeer pid \<Rightarrow> (hm_get (pending r))(pid := None)
        | DenyPeer pid \<Rightarrow> (hm_get (pending r))(pid := None)
        | _ \<Rightarrow> hm_get (pending r))"
    and "settings r1 = (case rc of
          UpdateSettings st \<Rightarrow> st
        | SetPublic b \<Rightarrow> (settings r)\<lparr>is_public := b\<rparr>
        | _ \<Rightarrow> settings r)"
    and "banned r1 = (case rc of
          Ban pid \<Rightarrow> banned r \<union> client_hash ` set_option (hm_get (clients r) pid)
        | _ \<Rightarrow> banned r)"
    and "app_key r1 = app_key r \<and> code r1 = code r \<and> state r1 = state r \<and> next_peer_id r1 = next_peer_id r"
proof -
  note ok = room_wfD(1,2) [OF assms(1)]
  show "hm_get (clients r1) = (case rc of
          AcceptPeer pid \<Rightarrow> (case hm_get (pending r) pid of
             None \<Rightarrow> hm_get (clients r) | Some i \<Rightarrow> (hm_get (clients r))(pid \<mapsto> i))
        | Kick pid \<Rightarrow> (hm_get (clients r))(pid := None)
        | Ban pid \<Rightarrow> (hm_get (clients r))(pid := None)
        | _ \<Rightarrow> hm_get (clients r))"
    using assms(2) ok
    by (cases rc) (auto simp: remove_client_def hm_get_insert fun_eq_iff split: option.splits if_splits)
  show "hm_get (pending r1) = (case rc of
          AcceptPeer pid \<Rightarrow> (hm_get (pending r))(pid := None)
        | DenyPeer pid \<Rightarrow> (hm_get (pending r))(pid := None)
        | _ \<Rightarrow> hm_get (pending r))"
    using assms(2) ok
    by (cases rc) (auto simp: remove_client_def fun_eq_iff split: option.splits if_splits)
qed (use assms(2) in \<open>cases rc; auto simp: remove_client_def split: option.splits if_splits\<close>)+

text \<open>C18: A control by anybody but the host is refused and changes nothing.  A control by the host answers
  nothing and turns the room into \<open>r1\<close>: \<open>TransferHost\<close> to a client changes the host, \<open>AcceptPeer\<close> moves a
  waiting peer to the clients, \<open>DenyPeer\<close> takes it out, \<open>Kick\<close> and \<open>Ban\<close> take a client out, \<open>Ban\<close> bans its hash,
  \<open>UpdateSettings\<close> and \<open>SetPublic\<close> change the settings, and nothing else changes.  A peer that was evicted or
  denied is sent the notice; then the message of the control, if it has one, is broadcast
  with the pruning contract \<open>settled\<close>, from \<open>r1\<close> and the log with the notice; otherwise \<open>r1\<close> is the result.\<close>

theorem control_in_room_outcome:
  assumes "room_wf r" and "control_in_room w me rc (r, lg) = (out, (r', lg'))"
  shows "if host_peer_id r \<noteq> me then out = [Error ''forbidden or invalid''] \<and> r' = r \<and> lg' = lg
    else out = [] \<and> (\<exists>r1. room_wf r1 \<and>
      host_peer_id r1 = (case rc of TransferHost pid \<Rightarrow> if pid \<in> client_ids r then pid else host_peer_id r
        | _ \<Rightarrow> host_peer_id r) \<and>
      hm_get (clients r1) = (case rc of
          AcceptPeer pid \<Rightarrow> (case hm_get (pending r) pid of
             None \<Rightarrow> hm_get (clients r) | Some i \<Rightarrow> (hm_get (clients r))(pid \<mapsto> i))
        | Kick pid \<Rightarrow> (hm_get (clients r))(pid := None)
        | Ban pid \<Rightarrow> (hm_get (clients r))(pid := None)
        | _ \<Rightarrow> hm_get (clients r)) \<and>
      hm_get (pending r1) = (case rc of
          AcceptPeer pid \<Rightarrow> (hm_get (pending r))(pid := None)
        | DenyPeer pid \<Rightarrow> (hm_get (pending r))(pid := None)
        | _ \<Rightarrow> hm_get (pending r)) \<and>
      settings r1 = (case rc of
          UpdateSettings st \<Rightarrow> st
        | SetPublic b \<Rightarrow> (settings r)\<lparr>is_public := b\<rparr>
        | _ \<Rightarrow> settings r) \<and>
      banned r1 = (case rc of
          Ban pid \<Rightarrow> banned r \<union> client_hash ` set_option (hm_get (clients r) pid)
        | _ \<Rightarrow> banned r) \<and>
      (app_key r1 = app_key r \<and> code r1 = code r \<and> state r1 = state r \<and> next_peer_id r1 = next_peer_id r) \<and>
      (case control_message r rc of
         None \<Rightarrow> r' = r1 \<and> lg' = lg @ control_notice w r lg rc
       | Some m \<Rightarrow> settled w m r1 (lg @ control_notice w r lg rc) r' lg'))"
proof (cases "host_peer_id r = me")
  case False
  with assms(2) show ?thesis by simp
next
  case True
  obtain r1 mo where eff: "control_effect r rc = (r1, mo)" by fastforce
  note wf1 = control_effect_wf [OF assms(1) eff]
  note l = control_in_room_log [OF True assms(2) eff]
  have last: "case control_message r rc of
         None \<Rightarrow> r' = r1 \<and> lg' = lg @ control_notice w r lg rc
       | Some m \<Rightarrow> settled w m r1 (lg @ control_notice w r lg rc) r' lg'"
    using l(2) broadcast_and_prune_settled [OF wf1] unfolding l(1) by (auto split: option.splits)
  have out: "out = []" by (rule control_in_room_effect(1) [OF True assms(2) eff])
  have "\<not> host_peer_id r \<noteq> me" using True by simp
  then show ?thesis
    by (simp only: if_False)
      (intro conjI exI [of _ r1] out wf1 last control_effect_tables [OF assms(1) eff]
        control_effect_tables(6) [OF assms(1) eff, THEN conjunct1]
        control_effect_tables(6) [OF assms(1) eff, THEN conjunct2, THEN conjunct1]
        control_effect_tables(6) [OF assms(1) eff, THEN conjunct2, THEN conjunct2, THEN conjunct1]
        control_effect_tables(6) [OF assms(1) eff, THEN conjunct2, THEN conjunct2, THEN conjunct2])
qed

theorem control_in_room_outcome_witness:
  "host_peer_id (fst (snd (control_in_room quiet_world 1 (TransferHost 9) (two_clients, [])))) = 1 \<and>
   3 \<in> client_ids (fst (snd (control_in_room quiet_world 1 (AcceptPeer 3) (host_and_pending, []))))"
proof
  obtain out r' lg' where run: "control_in_room quiet_world 1 (TransferHost 9) (two_clients, []) = (out, (r', lg'))"
    by (metis surj_pair)
  have "control_message two_clients (TransferHost 9) = None" by (simp add: control_message_def)
  with control_in_room_outcome [OF two_clients_wf run] run
  show "host_peer_id (fst (snd (control_in_room quiet_world 1 (TransferHost 9) (two_clients, [])))) = 1" by auto
  obtain out r' lg' where run: "control_in_room quiet_world 1 (AcceptPeer 3) (host_and_pending, []) = (out, (r', lg'))"
    by (metis surj_pair)
  have p: "hm_get (pending host_and_pending) 3 = Some (demo_info 30 2)" by (simp add: host_and_pending_def)
  then have m: "control_message host_and_pending (AcceptPeer 3) = Some (PeerJoined 3 (hash_str (client_hash (demo_info 30 2))) None)"
    by (simp add: control_message_def demo_info_def)
  have "control_notice quiet_world host_and_pending [] (AcceptPeer 3) = []" by (simp add: control_notice_def)
  with control_in_room_outcome [OF host_and_pending_wf run] m p obtain r1 where
    c: "hm_get (clients r1) = (hm_get (clients host_and_pending))(3 \<mapsto> demo_info 30 2)"
    and s: "settled quiet_world (PeerJoined 3 (hash_str (client_hash (demo_info 30 2))) None) r1 [] r' lg'"
    by auto
  from s obtain L ex where pr: "pruned L r1 r'" and lose: "sends_lose quiet_world r1 [] ex L"
    unfolding settled_def by blast
  have "(c, m', res) \<in> set ex \<Longrightarrow> res \<noteq> Closed" for c m' res
    using lose attempts_outcome [of quiet_world "[]" ex c m' res] by (auto simp: sends_lose_def quiet_world_def)
  with lose have "L = {}" unfolding sends_lose_def by blast
  with pr c have "3 \<in> client_ids r'" by (simp add: pruned_client_ids) (simp add: client_ids_def)
  then show "3 \<in> client_ids (fst (snd (control_in_room quiet_world 1 (AcceptPeer 3) (host_and_pending, []))))"
    by (simp only: run fst_conv snd_conv)
qed

text \<open>C10: In a room hosted by one of its clients every operation on the room (a departure, a move,
  an input, a control other than the host's own eviction) leaves the host a client of the
  room, unless no client is left.\<close>

theorem host_remains_client:
  assumes "room_wf r" and "host_peer_id r \<in> client_ids r"
    and "rc \<noteq> Kick me" and "rc \<noteq> Ban me"
  shows "(\<forall>out r' lg'. control_in_room w me rc (r, lg) = (out, (r', lg')) \<longrightarrow> host_ok r') \<and>
    (\<forall>out r' lg'. move_in_room w pid blob (r, lg) = (out, (r', lg')) \<longrightarrow> host_ok r') \<and>
    (\<forall>out r' lg'. input_in_room w pid blob (r, lg) = (out, (r', lg')) \<longrightarrow> host_ok r') \<and>
    (\<forall>r' lg'. leave_in_room w pid (r, lg) = (r', lg') \<longrightarrow> host_ok r')"
proof -
  have ok: "host_ok r" using assms(2) by (simp add: host_ok_def)
  show ?thesis
  proof (intro conjI allI impI)
    show "host_ok r'" if "control_in_room w me rc (r, lg) = (out, (r', lg'))" for out r' lg'
      by (rule control_in_room_host_ok [OF assms(1,2) that assms(3,4)])
    show "host_ok r'" if "move_in_room w pid blob (r, lg) = (out, (r', lg'))" for out r' lg'
      by (rule move_host.act_host [OF assms(1) ok that])
    show "host_ok r'" if "input_in_room w pid blob (r, lg) = (out, (r', lg'))" for out r' lg'
      by (rule input_host.act_host [OF assms(1) ok that])
    show "host_ok r'" if "leave_in_room w pid (r, lg) = (r', lg')" for r' lg'
      by (rule leave_in_room_host [OF assms(1) ok that])
  qed
qed

theorem host_remains_client_witness:
  "host_ok (fst (leave_in_room quiet_world 1 (two_clients, [])))"
proof -
  obtain r' lg' where "leave_in_room quiet_world 1 (two_clients, []) = (r', lg')" by fastforce
  with host_remains_client [OF two_clients_wf, of Leave 1 quiet_world "[]" 1 "[]"] show ?thesis by simp
qed

text \<open>C27: A host that kicks or bans itself leaves the client table but stays the host: it has no
  record in the room any more and still controls it, and its moves still set the state.\<close>

theorem self_eviction_keeps_control:
  assumes "room_wf r" and "host_peer_id r \<in> client_ids r" and "rc = Kick (host_peer_id r) \<or> rc = Ban (host_peer_id r)"
    and "control_in_room w (host_peer_id r) rc (r, lg) = (out, (r', lg'))"
  shows "host_peer_id r \<notin> members r' \<and> host_peer_id r' = host_peer_id r \<and>
    (\<forall>w' rc' lg1. fst (control_in_room w' (host_peer_id r) rc' (r', lg1)) = []) \<and>
    (\<forall>w' blob lg1. min_players (settings r') = 0 \<longrightarrow>
       state (fst (snd (move_in_room w' (host_peer_id r) blob (r', lg1)))) = blob)"
proof -
  let ?h = "host_peer_id r"
  from control_evict [OF assms(1) refl assms(3,4)] obtain r1 D where gone: "?h \<notin> client_ids r'"
    and eff: "control_effect r rc = (r1, Some (PeerLeft ?h))" and p: "pruned D r1 r'" by blast
  have h1: "host_peer_id r1 = ?h" "pending_ids r1 = pending_ids r" "client_ids r1 = client_ids r - {?h}"
    using eff assms(3) by (elim disjE; auto simp: remove_client_def pending_ids_def client_ids_def split: if_splits)+
  have "?h \<notin> pending_ids r" using assms(1,2) by (auto simp: room_wf_def)
  then have "?h \<notin> members r1" using h1 by (auto simp: members_def)
  then have out: "?h \<notin> members r'" "?h \<notin> D" using pruned_members [OF p] p by (auto simp: pruned_def)
  then have host: "host_peer_id r' = ?h" using p h1 by (auto simp: pruned_def)
  have wf': "room_wf r'" by (rule pruned_wf [OF p])
  have "fst (control_in_room w' ?h rc' (r', lg1)) = []" for w' rc' lg1
  proof -
    obtain o' r2 lg2 where c: "control_in_room w' ?h rc' (r', lg1) = (o', (r2, lg2))" by (metis surj_pair)
    obtain r3 mo where "control_effect r' rc' = (r3, mo)" by fastforce
    with control_in_room_effect(1) [OF host c] c show ?thesis by simp
  qed
  moreover have "state (fst (snd (move_in_room w' ?h blob (r', lg1)))) = blob"
    if "min_players (settings r') = 0" for w' blob lg1
  proof -
    obtain r2 lg2 where b: "broadcast_state_update_and_prune w' (r'\<lparr>state := blob\<rparr>, lg1) = (r2, lg2)" by fastforce
    have "room_wf (r'\<lparr>state := blob\<rparr>)" using wf' by simp
    from settled_state(1) [OF broadcast_state_update_and_prune_settled [OF this b]]
    show ?thesis using host that b by (simp add: move_in_room_def)
  qed
  ultimately show ?thesis using out(1) host by blast
qed

theorem self_eviction_keeps_control_witness:
  "1 \<notin> members (fst (snd (control_in_room quiet_world 1 (Kick 1) (two_clients, [])))) \<and>
   host_peer_id (fst (snd (control_in_room quiet_world 1 (Kick 1) (two_clients, [])))) = 1"
proof -
  obtain out r' lg' where run: "control_in_room quiet_world (host_peer_id two_clients) (Kick 1) (two_clients, []) = (out, (r', lg'))"
    by (metis surj_pair)
  with self_eviction_keeps_control [OF two_clients_wf _ _ run] show ?thesis by simp
qed

text \<open>C36: After the host has banned a client, nobody with that client's hash can join the room, at
  whatever later point the ban list still includes those banned now.\<close>

theorem ban_excludes_hash:
  assumes "room_wf r" and "host_peer_id r = me" and "hm_get (clients r) pid = Some info"
    and "control_in_room w me (Ban pid) (r, lg) = (out, (r', lg'))"
  shows "banned r' = insert (client_hash info) (banned r) \<and> pid \<notin> client_ids r' \<and>
    (\<forall>r2 w' c i d pw lg1. banned r' \<subseteq> banned r2 \<longrightarrow>
       join_room w' c i (hash_str (client_hash info)) d pw (r2, lg1) = (Inl ''banned from this room'', (r2, lg1)))"
proof -
  have "Ban pid = Kick pid \<or> Ban pid = Ban pid" by simp
  from control_evict [OF assms(1,2) this assms(4)] obtain r1 D where gone: "pid \<notin> client_ids r'"
    and eff: "control_effect r (Ban pid) = (r1, Some (PeerLeft pid))" and p: "pruned D r1 r'"
    by (elim exE conjE) (rule that)
  have "banned r' = insert (client_hash info) (banned r)"
  proof -
    have "banned r1 = banned (fst (control_effect r (Ban pid)))" by (simp only: eff fst_conv)
    then show ?thesis by (simp add: assms(3) pruned_frame(5) [OF p])
  qed
  moreover have "join_room w' c i (hash_str (client_hash info)) d pw (r2, lg1) =
      (Inl ''banned from this room'', (r2, lg1))" if "banned r' \<subseteq> banned r2" for r2 w' c i d pw lg1
    using that calculation by (auto simp: join_room_def is_banned_def)
  ultimately show ?thesis using gone by blast
qed

theorem ban_excludes_hash_witness:
  "\<exists>r'. fst (join_room quiet_world (RoomCode ''ABC'') 50 (hash_str (client_hash (demo_info 20 1))) None None (r', [])) =
     Inl ''banned from this room'' \<and> 2 \<notin> client_ids r'"
proof -
  obtain out r' lg' where run: "control_in_room quiet_world 1 (Ban 2) (two_clients, []) = (out, (r', lg'))"
    by (metis surj_pair)
  have "hm_get (clients two_clients) 2 = Some (demo_info 20 1)" by (simp add: two_clients_def)
  from ban_excludes_hash [OF two_clients_wf _ this run] show ?thesis
    by (intro exI [of _ r']) simp
qed

end
