(* ===== verification/Http.thy ===== *)
theory Http
  imports Pool
begin

text \<open>
  The data behind the HTTP statistics (\<open>server/http.rs\<close>), the command line of \<open>main.rs\<close> and the
  binding of the listeners by \<open>run\<close>.  The registry is iterated like a pool; it is named by the empty string, which
  no app key is.
\<close>

record game_stats =
  gs_id :: string
  gs_rooms :: u32
  gs_players :: u32

definition collect_stats :: "world \<Rightarrow> server \<Rightarrow> game_stats list" where
  "collect_stats w s =
     map (\<lambda>a. let (n, players) = room_and_player_counts w (the (registry s a)) s
              in \<lparr>gs_id = a, gs_rooms = word_of_nat n, gs_players = word_of_nat players\<rparr>)
       (w_iter w [] (dom (registry s)))"

text \<open>The answer to \<open>GET /\<close>, which the web framework writes as JSON.\<close>

record stats_response =
  games :: "game_stats list"

definition stats_handler :: "world \<Rightarrow> server \<Rightarrow> stats_response" where
  "stats_handler w s = \<lparr>games = collect_stats w s\<rparr>"

text \<open>The players of a room: accepted and pending.\<close>

definition player_count :: "room \<Rightarrow> nat" where
  "player_count r = hm_len (clients r) + hm_len (pending r)"

lemma fold_counts: "fold (\<lambda>r n. n + (hm_len (clients r) + hm_len (pending r))) rs k = k + sum_list (map player_count rs)"
  by (induction rs arbitrary: k) (simp_all add: player_count_def)

lemma room_and_player_counts_sum:
  assumes "iter_ok w" and "finite (dom (rooms p))"
  shows "room_and_player_counts w p s =
    (card (dom (rooms p)), \<Sum>k \<in> dom (rooms p). player_count (heap s (the (rooms p k))))"
proof -
  let ?ks = "w_iter w (pool_app_key p) (dom (rooms p))"
  have "distinct ?ks" "set ?ks = dom (rooms p)" using assms by (simp_all add: iter_ok_def)
  then have "sum_list (map (\<lambda>k. player_count (heap s (the (rooms p k)))) ?ks) =
      (\<Sum>k \<in> dom (rooms p). player_count (heap s (the (rooms p k))))"
    by (simp add: sum_list_distinct_conv_sum_set)
  then show ?thesis by (simp add: room_and_player_counts_def fold_counts iter_rooms_def comp_def)
qed

lemma iter_rooms_set:
  assumes "iter_ok w" and "finite (dom (rooms p))"
  shows "set (iter_rooms w p s) = {heap s ad |k ad. rooms p k = Some ad}"
proof -
  have "set (w_iter w (pool_app_key p) (dom (rooms p))) = dom (rooms p)"
    using assms by (simp add: iter_ok_def)
  then show ?thesis by (force simp: iter_rooms_def)
qed

section \<open>The command line\<close>

text \<open>\<open>args.get(n)\<close>; the program's name is argument 0.\<close>

definition get_arg :: "string list \<Rightarrow> nat \<Rightarrow> string option" where
  "get_arg args n = (if n < length args then Some (args ! n) else None)"

text \<open>The addresses \<open>main\<close> passes to \<open>run\<close>: TCP, WebSocket, HTTP.\<close>

definition main_binds :: "string list \<Rightarrow> string \<times> string option \<times> string option" where
  "main_binds args =
     (let tcp_bind = (case get_arg args 1 of Some a \<Rightarrow> a | None \<Rightarrow> ''0.0.0.0:8765'');
          ws_bind = (case (get_arg args 1, get_arg args 2) of
                       (None, _) \<Rightarrow> Some ''0.0.0.0:8766''
                     | (_, Some ws) \<Rightarrow> Some ws
                     | (_, None) \<Rightarrow> None);
          http_bind = (case (get_arg args 1, get_arg args 2, get_arg args 3) of
                         (None, _, _) \<Rightarrow> Some ''0.0.0.0:80''
                       | (_, _, Some http) \<Rightarrow> Some http
                       | _ \<Rightarrow> None)
      in (tcp_bind, ws_bind, http_bind))"

section \<open>Starting the server\<close>

text \<open>
  \<open>run\<close> up to its accept loops.  \<open>bind a\<close> is the error of binding the address \<open>a\<close>, if any.  The
  HTTP server binds in a task of its own; the address of a listener that came up is kept.
\<close>

record listeners =
  tcp_listener :: string
  ws_listener :: "string option"
  http_listener :: "string option"

text \<open>\<open>run_http\<close> until it serves.\<close>

definition run_http :: "(string \<Rightarrow> 'e option) \<Rightarrow> string \<Rightarrow> 'e + string" where
  "run_http bind addr = (case bind addr of Some e \<Rightarrow> Inl e | None \<Rightarrow> Inr addr)"

definition run_start ::
  "(string \<Rightarrow> 'e option) \<Rightarrow> string \<Rightarrow> string option \<Rightarrow> string option \<Rightarrow> 'e + listeners" where
  "run_start bind tcp_bind ws_bind http_bind =
     (case bind tcp_bind of
        Some e \<Rightarrow> Inl e
      | None \<Rightarrow>
          let http = (case http_bind of
                        None \<Rightarrow> None
                      | Some addr \<Rightarrow> (case run_http bind addr of Inl e \<Rightarrow> None | Inr a \<Rightarrow> Some a))
          in case ws_bind of
               None \<Rightarrow> Inr \<lparr>tcp_listener = tcp_bind, ws_listener = None, http_listener = http\<rparr>
             | Some addr \<Rightarrow>
                 (case bind addr of
                    Some e \<Rightarrow> Inl e
                  | None \<Rightarrow> Inr \<lparr>tcp_listener = tcp_bind, ws_listener = Some addr, http_listener = http\<rparr>))"

text \<open>\<open>main\<close>: run on the addresses of the command line.\<close>

definition main_start :: "(string \<Rightarrow> 'e option) \<Rightarrow> string list \<Rightarrow> 'e + listeners" where
  "main_start bind args = (let (tcp, ws, http) = main_binds args in run_start bind tcp ws http)"

lemma run_start_Inr:
  "run_start bind tcp ws http = Inr l \<longleftrightarrow>
     bind tcp = None \<and> (\<forall>a. ws = Some a \<longrightarrow> bind a = None) \<and>
     l = \<lparr>tcp_listener = tcp, ws_listener = ws,
          http_listener = Option.bind http (\<lambda>a. if bind a = None then Some a else None)\<rparr>"
  by (cases "bind tcp"; cases ws; cases http) (auto simp: run_start_def run_http_def Let_def split: option.splits)

end
