(* ===== verification/Store.thy ===== *)
theory Store
  imports Handlers
begin

text \<open>
  Invariants of the server store: which operations keep it well-formed (\<open>server_wf\<close>), what an
  operation that adds no room leaves (\<open>store_step\<close>), and what \<open>create_room\<close> adds
  (\<open>created\<close>).
\<close>

section \<open>Well-formed stores\<close>

text \<open>The address \<open>ad\<close> is the room that the pool of \<open>a\<close> finds under the key \<open>k\<close>.\<close>

definition registered :: "server \<Rightarrow> string \<Rightarrow> string \<Rightarrow> addr \<Rightarrow> bool" where
  "registered s a k ad \<longleftrightarrow> (\<exists>p. registry s a = Some p \<and> rooms p k = Some ad)"

text \<open>
  Rooms are well-formed; every pool knows its app key and has finitely many entries; an entry
  leads to an allocated room of that app whose own code folds to the key; cached defaults
  have no password and no acceptance step.  \<open>f\<close> is the case folding.
\<close>

definition server_wf :: "(string \<Rightarrow> string) \<Rightarrow> server \<Rightarrow> bool" where
  "server_wf f s \<longleftrightarrow>
     (\<forall>ad. room_wf (heap s ad)) \<and>
     (\<forall>a p. registry s a = Some p \<longrightarrow> pool_app_key p = a \<and> finite (dom (rooms p))) \<and>
     (\<forall>a k ad. registered s a k ad \<longrightarrow>
        ad < next_addr s \<and> app_key (heap s ad) = a \<and> f (code_str (code (heap s ad))) = k) \<and>
     cache_plain (cache s)"

lemma server_wf_init: "server_wf f (server_init w)"
  by (simp add: server_wf_def server_init_def registered_def cache_plain_def)

lemma registered_unique:
  assumes "server_wf f s" and "registered s a k ad" and "registered s a' k' ad"
  shows "a' = a \<and> k' = k"
  using assms unfolding server_wf_def by metis

text \<open>The log grew by messages that show no password.\<close>

definition log_step :: "send_log \<Rightarrow> send_log \<Rightarrow> bool" where
  "log_step lg lg' \<longleftrightarrow> (\<exists>ex. lg' = lg @ ex \<and> (\<forall>m \<in> log_msgs ex. no_password m))"

lemma log_step_refl [simp]: "log_step lg lg"
  by (simp add: log_step_def)

lemma log_step_trans: "log_step lg lg1 \<Longrightarrow> log_step lg1 lg' \<Longrightarrow> log_step lg lg'"
  by (auto simp: log_step_def ball_Un)

lemma log_step_msgs: "log_step lg lg' \<Longrightarrow> (\<forall>m \<in> log_msgs lg. no_password m) \<Longrightarrow> \<forall>m \<in> log_msgs lg'. no_password m"
  by (auto simp: log_step_def)

text \<open>
  \<open>store_step s s'\<close>: what an operation that adds no room leaves: the same rooms or fewer
  entries, each room kept, the same allocator, pools only added.
\<close>

definition store_step :: "server \<Rightarrow> server \<Rightarrow> bool" where
  "store_step s s' \<longleftrightarrow>
     (\<forall>ad. keeps (heap s ad) (heap s' ad)) \<and> next_addr s' = next_addr s \<and>
     (\<forall>a k ad. registered s' a k ad \<longrightarrow> registered s a k ad) \<and>
     (\<forall>a p. registry s' a = Some p \<longrightarrow> pool_app_key p = a \<and> finite (dom (rooms p))) \<and>
     (cache_plain (cache s) \<longrightarrow> cache_plain (cache s')) \<and>
     log_step (sends s) (sends s')"

lemma store_stepD:
  assumes "store_step s s'"
  shows "keeps (heap s ad) (heap s' ad)" "next_addr s' = next_addr s"
    "registered s' a k ad \<Longrightarrow> registered s a k ad"
    "registry s' a = Some p \<Longrightarrow> pool_app_key p = a \<and> finite (dom (rooms p))"
    "cache_plain (cache s) \<Longrightarrow> cache_plain (cache s')" "log_step (sends s) (sends s')"
  using assms by (auto simp: store_step_def)

lemma server_wfD:
  assumes "server_wf f s"
  shows "room_wf (heap s ad)"
    "registry s a = Some p \<Longrightarrow> pool_app_key p = a \<and> finite (dom (rooms p))"
    "registered s a k ad \<Longrightarrow> ad < next_addr s \<and> app_key (heap s ad) = a \<and> f (code_str (code (heap s ad))) = k"
    "cache_plain (cache s)"
  using assms by (auto simp: server_wf_def)

lemmas server_wf_rooms = server_wfD(1)
lemmas server_wf_pools = server_wfD(2)

lemma store_step_wf:
  assumes wf: "server_wf f s" and st: "store_step s s'"
  shows "server_wf f s'"
  unfolding server_wf_def
proof (intro conjI allI impI)
  show "room_wf (heap s' ad)" for ad using store_stepD(1) [OF st] by (rule keeps_wf)
  show "cache_plain (cache s')" using server_wfD(4) [OF wf] store_stepD(5) [OF st] by blast
  show "pool_app_key p = a" "finite (dom (rooms p))" if "registry s' a = Some p" for a p
    using store_stepD(4) [OF st that] by simp_all
  fix a k ad assume "registered s' a k ad"
  then have "registered s a k ad" by (rule store_stepD(3) [OF st])
  from server_wfD(3) [OF wf this] store_stepD(1) [OF st, of ad] store_stepD(2) [OF st]
  show "ad < next_addr s'" "app_key (heap s' ad) = a" "f (code_str (code (heap s' ad))) = k"
    by (simp_all add: keeps_def)
qed

lemma store_step_refl:
  assumes "server_wf f s"
  shows "store_step s s"
  using server_wfD [OF assms] by (auto simp: store_step_def keeps_refl)

lemma store_step_trans:
  assumes "store_step s s1" and "store_step s1 s'"
  shows "store_step s s'"
  unfolding store_step_def
proof (intro conjI allI impI)
  show "keeps (heap s ad) (heap s' ad)" for ad
    using store_stepD(1) [OF assms(1)] store_stepD(1) [OF assms(2)] by (rule keeps_trans)
  show "log_step (sends s) (sends s')"
    using store_stepD(6) [OF assms(1)] store_stepD(6) [OF assms(2)] by (rule log_step_trans)
qed (use store_stepD [OF assms(1)] store_stepD [OF assms(2)] in auto)

lemma store_step_cache:
  assumes "server_wf f s" and "cache_plain c"
  shows "store_step s (s\<lparr>cache := c\<rparr>)"
  using store_step_refl [OF assms(1)] assms(2) by (simp add: store_step_def registered_def)

text \<open>Working on one room under its mutex.\<close>

lemma store_step_room:
  assumes "server_wf f s" and "keeps (heap s ad) r" and "log_step (sends s) lg"
  shows "store_step s (s\<lparr>heap := (heap s)(ad := r), sends := lg\<rparr>)"
  using store_step_refl [OF assms(1)] assms(2,3) by (auto simp: store_step_def registered_def)

text \<open>Replacing a pool by one with fewer entries.\<close>

lemma store_step_pool:
  assumes wf: "server_wf f s" and p: "registry s a = Some p" and le: "rooms p' \<subseteq>\<^sub>m rooms p"
    and key: "pool_app_key p' = pool_app_key p"
  shows "store_step s (s\<lparr>registry := (registry s)(a \<mapsto> p')\<rparr>)"
  unfolding store_step_def
proof (intro conjI allI impI)
  let ?s = "s\<lparr>registry := (registry s)(a \<mapsto> p')\<rparr>"
  show "keeps (heap s ad) (heap ?s ad)" for ad using server_wfD(1) [OF wf] by (simp add: keeps_refl)
  show "registered s b k ad" if "registered ?s b k ad" for b k ad
    using that p le by (auto simp: registered_def map_le_def split: if_splits) (metis domI)
  have "finite (dom (rooms p'))"
    using server_wfD(2) [OF wf p] map_le_implies_dom_le [OF le] by (auto intro: finite_subset)
  then show "pool_app_key q = b" "finite (dom (rooms q))" if "registry ?s b = Some q" for b q
    using that server_wfD(2) [OF wf] p key by (auto split: if_splits)
qed simp_all

lemma remove_if_empty_le:
  "rooms (snd (remove_if_empty w c s p)) \<subseteq>\<^sub>m rooms p \<and> pool_app_key (snd (remove_if_empty w c s p)) = pool_app_key p"
  by (auto simp: remove_if_empty_def map_le_def split: option.splits)

lemma store_step_drop_if_empty:
  assumes "server_wf f s"
  shows "store_step s (drop_if_empty w a c s)"
proof (cases "registry s a")
  case None
  then show ?thesis using store_step_refl [OF assms] by (simp add: drop_if_empty_def)
next
  case (Some p)
  then show ?thesis
    using store_step_pool [OF assms Some] remove_if_empty_le [of w c s p] by (simp add: drop_if_empty_def)
qed

lemma store_step_leave:
  assumes wf: "server_wf f s"
  shows "store_step s (leave_room w a c pid s)"
proof (cases "lookup_room w s a c")
  case None
  then show ?thesis using store_step_refl [OF wf] by (simp add: leave_room_def)
next
  case (Some ad)
  obtain r lg where run: "leave_in_room w pid (heap s ad, sends s) = (r, lg)" by fastforce
  let ?s1 = "s\<lparr>heap := (heap s)(ad := r), sends := lg\<rparr>"
  have s1: "store_step s ?s1"
    using leave_in_room_keeps [OF server_wf_rooms [OF wf] run]
    by (intro store_step_room [OF wf]) (simp_all add: log_step_def)
  have "store_step ?s1 (drop_if_empty w a c ?s1)"
    by (rule store_step_drop_if_empty [OF store_step_wf [OF wf s1]])
  with s1 Some run show ?thesis
    by (auto simp: leave_room_def with_room_def Let_def intro: store_step_trans)
qed

context room_operation
begin

lemma in_session_room_step:
  assumes wf: "server_wf f s" and run: "in_session_room w ss act s = (out, s')"
  shows "store_step s s'" and "\<forall>m \<in> set out. no_password m"
proof -
  have "store_step s s' \<and> (\<forall>m \<in> set out. no_password m)"
proof (cases "lookup_room w s (s_app_key ss) (s_room_code ss)")
  case None
  with run store_step_refl [OF wf] show ?thesis by (simp add: in_session_room_def)
next
  case (Some ad)
  obtain r lg where act: "act (heap s ad, sends s) = (out, (r, lg))"
    and s': "s' = s\<lparr>heap := (heap s)(ad := r), sends := lg\<rparr>"
    using run Some by (auto simp: in_session_room_def split: prod.splits)
  note w = server_wf_rooms [OF wf, of ad]
  from act_log [OF w act] have "log_step (sends s) lg" "\<forall>m \<in> set out. no_password m"
    by (auto simp: log_step_def)
  with act_keeps [OF w act] store_step_room [OF wf, of ad r lg] s' show ?thesis by blast
qed
  then show "store_step s s'" and "\<forall>m \<in> set out. no_password m" by blast+
qed

end

interpretation leave_op: room_operation "\<lambda>ctx. ([], leave_in_room w pid ctx)"
  by (rule room_operation_leave)

interpretation move_op: room_operation "move_in_room w pid blob"
  by (rule room_operation_move)

interpretation input_op: room_operation "input_in_room w pid blob"
  by (rule room_operation_input)

interpretation state_op: room_operation state_in_room
  by (rule room_operation_state)

interpretation control_op: room_operation "control_in_room w me rc"
  by (rule room_operation_control)

section \<open>Creating a room\<close>

text \<open>
  \<open>created w st a s res s'\<close>: the app \<open>a\<close> got a room with settings \<open>st\<close> under a key that was
  free, at a fresh address; or (\<open>None\<close>) no room was added.
\<close>

definition created ::
  "world \<Rightarrow> room_settings \<Rightarrow> string \<Rightarrow> server \<Rightarrow> (room_code \<times> addr) option \<Rightarrow> server \<Rightarrow> bool" where
  "created w st a s res s' \<longleftrightarrow> sends s' = sends s \<and> cache s' = cache s \<and> locked s' = locked s \<and>
     (case res of
        None \<Rightarrow> heap s' = heap s \<and> next_addr s' = next_addr s \<and> registry s' = registry s
      | Some (c, ad) \<Rightarrow> ad = next_addr s \<and> next_addr s' = Suc ad \<and>
          heap s' = (heap s)(ad := Room_new w a c st) \<and>
          (\<exists>p. registry s a = Some p \<and> rooms p (code_key w c) = None \<and>
             registry s' = (registry s)(a \<mapsto> p\<lparr>rooms := (rooms p)(code_key w c \<mapsto> ad)\<rparr>)))"

definition put_pool :: "string \<Rightarrow> room_pool \<Rightarrow> server \<Rightarrow> server" where
  "put_pool a p s = s\<lparr>registry := (registry s)(a \<mapsto> p)\<rparr>"

lemma put_pool_simps [simp]:
  "heap (put_pool a p s) = heap s" "next_addr (put_pool a p s) = next_addr s"
  "registry (put_pool a p s) = (registry s)(a \<mapsto> p)" "cache (put_pool a p s) = cache s"
  "locked (put_pool a p s) = locked s" "sends (put_pool a p s) = sends s"
  by (simp_all add: put_pool_def)

lemma created_try_insert:
  assumes "try_insert_new_room w c st (p, s) = (res, p', s')" and "pool_app_key p = a"
  shows "created w st a (put_pool a p s) res (put_pool a p' s') \<and> pool_app_key p' = a \<and>
    (res = None \<longleftrightarrow> rooms p (code_key w c) \<noteq> None) \<and> (\<forall>c' ad. res = Some (c', ad) \<longrightarrow> c' = c)"
  using assms by (auto simp: try_insert_new_room_def created_def Let_def split: option.splits)

text \<open>Only the random number position and the fallback counter differ.\<close>

lemma created_counters:
  "created w st a (put_pool a p (s\<lparr>rng_pos := x\<rparr>)) res S' = created w st a (put_pool a p s) res S'"
  "created w st a (put_pool a p (s\<lparr>fallback_counter := y\<rparr>)) res S' = created w st a (put_pool a p s) res S'"
  by (cases res; auto simp: created_def)+

lemma created_None_trans:
  "created w st a S None S1 \<Longrightarrow> created w st a S1 res S' \<Longrightarrow> created w st a S res S'"
  by (auto simp: created_def split: option.splits)

lemma created_random_codes:
  "try_random_codes n w st (p, s) = (res, p', s') \<Longrightarrow> pool_app_key p = a \<Longrightarrow>
   created w st a (put_pool a p s) res (put_pool a p' s') \<and> pool_app_key p' = a"
proof (induction n w st "(p, s)" arbitrary: p s rule: try_random_codes.induct)
  case (1 w st p s)
  then show ?case by (auto simp: created_def)
next
  case (2 n w st p s)
  obtain c s1 where rc: "random_code w s = (c, s1)" by fastforce
  then have s1: "s1 = s\<lparr>rng_pos := rng_pos s + ROOM_CODE_LEN\<rparr>" by (simp add: random_code_def)
  obtain r p2 s2 where ti: "try_insert_new_room w c st (p, s1) = (r, p2, s2)" by (metis surj_pair)
  from created_try_insert [OF ti "2.prems"(2)] have
    one: "created w st a (put_pool a p s) r (put_pool a p2 s2)" "pool_app_key p2 = a"
    by (simp_all add: s1 created_counters)
  show ?case
  proof (cases r)
    case (Some x)
    with "2.prems"(1) rc ti one show ?thesis by simp
  next
    case None
    with "2.prems"(1) rc ti have rest: "try_random_codes n w st (p2, s2) = (res, p', s')" by simp
    have "created w st a (put_pool a p2 s2) res (put_pool a p' s') \<and> pool_app_key p' = a"
      using "2.hyps" [OF rc [symmetric] _ _ None _ rest one(2)] ti None by simp
    with one(1) None show ?thesis by (auto intro: created_None_trans)
  qed
qed

lemma created_create_room:
  assumes run: "create_room w st req (p, s) = (res, p', s')" and key: "pool_app_key p = a"
  shows "created w st a (put_pool a p s) res (put_pool a p' s')"
proof (cases "req = []")
  case False
  with run have "try_insert_new_room w (RoomCode req) st (p, s) = (res, p', s')" by (simp add: create_room_def)
  from created_try_insert [OF this key] show ?thesis by simp
next
  case True
  obtain r p1 s1 where t: "try_random_codes ROOM_CODE_GEN_RETRIES w st (p, s) = (r, p1, s1)" by (metis surj_pair)
  from created_random_codes [OF t key] have
    one: "created w st a (put_pool a p s) r (put_pool a p1 s1)" "pool_app_key p1 = a" by simp_all
  show ?thesis
  proof (cases r)
    case (Some x)
    with run True t one show ?thesis by (simp add: create_room_def)
  next
    case None
    with run True t have "try_insert_new_room w (fallback_code (fallback_counter s1)) st
        (p1, s1\<lparr>fallback_counter := fallback_counter s1 + 1\<rparr>) = (res, p', s')"
      by (simp add: create_room_def Let_def)
    from created_try_insert [OF this one(2)]
    have "created w st a (put_pool a p1 s1) res (put_pool a p' s')" by (simp add: created_counters)
    with one(1) None show ?thesis by (auto intro: created_None_trans)
  qed
qed

lemma member_info_new [simp]: "member_info (Room_new w a c st) = Map.empty"
  by (simp add: member_info_def Room_new_def fun_eq_iff)

lemma created_registered:
  assumes "created w st a s (Some (c, ad)) s'"
  shows "registered s' b k d \<longleftrightarrow> registered s b k d \<or> (b = a \<and> k = code_key w c \<and> d = ad)"
proof -
  from assms obtain p where "registry s a = Some p" "rooms p (code_key w c) = None"
    "registry s' = (registry s)(a \<mapsto> p\<lparr>rooms := (rooms p)(code_key w c \<mapsto> ad)\<rparr>)"
    by (auto simp: created_def)
  then show ?thesis by (cases "b = a"; cases "k = code_key w c") (auto simp: registered_def)
qed

lemma created_wf:
  assumes wf: "server_wf f s" and cr: "created w st a s res s'" and f: "w_case_fold w = f"
  shows "server_wf f s'"
proof (cases res)
  case None
  with cr wf show ?thesis by (simp add: created_def server_wf_def registered_def)
next
  case (Some x)
  obtain c ad where res: "res = Some (c, ad)" using Some by (cases x) auto
  from cr res obtain p where p: "registry s a = Some p" "rooms p (code_key w c) = None"
      "registry s' = (registry s)(a \<mapsto> p\<lparr>rooms := (rooms p)(code_key w c \<mapsto> ad)\<rparr>)"
    and ad: "ad = next_addr s" "next_addr s' = Suc ad" "heap s' = (heap s)(ad := Room_new w a c st)"
      "cache s' = cache s"
    by (auto simp: created_def)
  note reg = created_registered [OF cr [unfolded res]]
  show ?thesis unfolding server_wf_def
  proof (intro conjI allI impI)
    show "room_wf (heap s' d)" for d using server_wfD(1) [OF wf] by (simp add: ad(3))
    show "cache_plain (cache s')" using server_wfD(4) [OF wf] by (simp add: ad(4))
    show "pool_app_key q = b" "finite (dom (rooms q))" if "registry s' b = Some q" for b q
      using that server_wfD(2) [OF wf] p by (auto split: if_splits)
    fix b k d assume "registered s' b k d"
    then have "registered s b k d \<or> (b = a \<and> k = code_key w c \<and> d = ad)" by (simp add: reg)
    then show "d < next_addr s'" "app_key (heap s' d) = b" "f (code_str (code (heap s' d))) = k"
      using server_wfD(3) [OF wf, of b k d] ad f by (auto simp: Room_new_def code_key_def)
  qed
qed

end
