(* ===== verification/Pool_Guarantees.thy ===== *)
theory Pool_Guarantees
  imports Http Store Scenario
begin

text \<open>
  What the registry of rooms guarantees: the codes it hands out, how they are found, what is
  listed and counted, which apps are known, and when a room is dropped.
\<close>

section \<open>Room codes\<close>

lemma ROOM_CODE_CHARS_facts:
  "\<forall>c \<in> set ROOM_CODE_CHARS. is_ascii_alphanumeric c \<and> (of_char c :: nat) < 128"
  "length ROOM_CODE_CHARS = 32"
  by code_simp+

text \<open>The code of the draw that starts at position \<open>pos\<close> of the random numbers.\<close>

definition drawn_code :: "world \<Rightarrow> nat \<Rightarrow> room_code" where
  "drawn_code w pos =
     RoomCode (map (\<lambda>i. ROOM_CODE_CHARS ! w_gen_range w (pos + i) (length ROOM_CODE_CHARS)) [0..<ROOM_CODE_LEN])"

lemma random_code_drawn:
  "random_code w s = (drawn_code w (rng_pos s), s\<lparr>rng_pos := rng_pos s + ROOM_CODE_LEN\<rparr>)"
  by (simp add: random_code_def drawn_code_def)

lemma drawn_code_chars:
  assumes "gen_range_ok w"
  shows "length (code_str (drawn_code w pos)) = 6 \<and> set (code_str (drawn_code w pos)) \<subseteq> set ROOM_CODE_CHARS"
proof -
  have "w_gen_range w n (length ROOM_CODE_CHARS) < length ROOM_CODE_CHARS" for n
    using assms by (simp add: gen_range_ok_def ROOM_CODE_CHARS_facts)
  then show ?thesis by (auto simp: drawn_code_def ROOM_CODE_LEN_def intro: nth_mem)
qed

lemma try_insert_result:
  "fst (try_insert_new_room w c st (p, s)) =
     (if rooms p (code_key w c) = None then Some (c, next_addr s) else None)"
  "rooms p (code_key w c) \<noteq> None \<Longrightarrow> try_insert_new_room w c st (p, s) = (None, p, s)"
  by (auto simp: try_insert_new_room_def Let_def split: option.split)

text \<open>The draws are made one after the other until one is free.\<close>

lemma try_random_codes_None:
  "(fst (try_random_codes n w st (p, s)) = None \<longleftrightarrow>
     (\<forall>k < n. rooms p (code_key w (drawn_code w (rng_pos s + k * ROOM_CODE_LEN))) \<noteq> None)) \<and>
   (fst (try_random_codes n w st (p, s)) = None \<longrightarrow>
     try_random_codes n w st (p, s) = (None, p, s\<lparr>rng_pos := rng_pos s + n * ROOM_CODE_LEN\<rparr>))"
proof (induction n arbitrary: s)
  case (Suc n)
  let ?c = "drawn_code w (rng_pos s)" and ?s = "s\<lparr>rng_pos := rng_pos s + ROOM_CODE_LEN\<rparr>"
  let ?taken = "\<lambda>pos. rooms p (code_key w (drawn_code w pos)) \<noteq> None"
  have shift: "(\<forall>k < Suc n. ?taken (rng_pos s + k * ROOM_CODE_LEN)) \<longleftrightarrow>
      ?taken (rng_pos s) \<and> (\<forall>k < n. ?taken (rng_pos ?s + k * ROOM_CODE_LEN))"
    by (simp add: All_less_Suc2 add.assoc)
  show ?case
  proof (cases "?taken (rng_pos s)")
    case False
    then obtain x p' s' where "try_insert_new_room w ?c st (p, ?s) = (Some x, p', s')"
      using try_insert_result(1) [of w ?c st p ?s] by (metis fst_conv surj_pair)
    then have "fst (try_random_codes (Suc n) w st (p, s)) \<noteq> None" by (simp add: random_code_drawn)
    with False shift show ?thesis by blast
  next
    case True
    from try_insert_result(2) [OF this, of st ?s] have
      eq: "try_random_codes (Suc n) w st (p, s) = try_random_codes n w st (p, ?s)"
      by (simp add: random_code_drawn)
    from Suc.IH [of ?s] True shift show ?thesis unfolding eq by (simp add: add.assoc)
  qed
qed simp

lemma try_random_codes_Some:
  "try_random_codes n w st (p, s) = (Some (c, ad), p', s') \<Longrightarrow> \<exists>pos. c = drawn_code w pos"
proof (induction n arbitrary: p s)
  case (Suc n)
  let ?c = "drawn_code w (rng_pos s)" and ?s = "s\<lparr>rng_pos := rng_pos s + ROOM_CODE_LEN\<rparr>"
  obtain r p1 s1 where ti: "try_insert_new_room w ?c st (p, ?s) = (r, p1, s1)" by (metis surj_pair)
  show ?case
  proof (cases r)
    case None
    with ti Suc.prems have "try_random_codes n w st (p1, s1) = (Some (c, ad), p', s')"
      by (simp add: random_code_drawn)
    then show ?thesis by (rule Suc.IH)
  next
    case (Some x)
    with ti try_insert_result(1) [of w ?c st p ?s] have "x = (?c, next_addr ?s)" by (auto split: if_splits)
    with Some ti Suc.prems show ?thesis by (auto simp: random_code_drawn)
  qed
qed simp

lemma create_room_codes:
  assumes "create_room w st [] (p, s) = (Some (c, ad), p', s')"
  shows "(\<exists>pos. c = drawn_code w pos) \<or> (\<exists>n. c = fallback_code n)"
proof -
  obtain r p1 s1 where t: "try_random_codes ROOM_CODE_GEN_RETRIES w st (p, s) = (r, p1, s1)" by (metis surj_pair)
  show ?thesis
  proof (cases r)
    case (Some x)
    with assms t have "x = (c, ad)" by (simp add: create_room_def)
    with try_random_codes_Some t Some show ?thesis by blast
  next
    case None
    let ?c = "fallback_code (fallback_counter s1)" and ?s = "s1\<lparr>fallback_counter := fallback_counter s1 + 1\<rparr>"
    from assms t None have "try_insert_new_room w ?c st (p1, ?s) = (Some (c, ad), p', s')"
      by (simp add: create_room_def Let_def)
    with try_insert_result(1) [of w ?c st p1 ?s] have "c = ?c" by (auto split: if_splits)
    then show ?thesis by blast
  qed
qed

lemma digit_alnum: "d < 10 \<Longrightarrow> is_ascii_alphanumeric (digit_char d) \<and> (of_char (digit_char d) :: nat) < 128"
  by (simp add: is_ascii_alphanumeric_def digit_char_def Let_def)

lemma dec_string_alnum: "\<forall>c \<in> set (dec_string n). is_ascii_alphanumeric c \<and> (of_char c :: nat) < 128"
proof (induction n rule: dec_string.induct)
  case (1 n)
  then show ?case
    by (cases "n < 10"; subst dec_string.simps) (auto simp: digit_alnum)
qed

lemma fallback_code_alnum:
  "\<forall>c \<in> set (code_str (fallback_code n)). is_ascii_alphanumeric c \<and> (of_char c :: nat) < 128"
  using dec_string_alnum by (auto simp: fallback_code_def is_ascii_alphanumeric_def)

lemma created_code_alnum:
  assumes "gen_range_ok w" and "create_room w st [] (p, s) = (Some (c, ad), p', s')"
  shows "\<forall>x \<in> set (code_str c). is_ascii_alphanumeric x \<and> (of_char x :: nat) < 128"
  using create_room_codes [OF assms(2)] drawn_code_chars [OF assms(1)] ROOM_CODE_CHARS_facts(1)
    fallback_code_alnum by blast

lemma created_code_normal:
  assumes "gen_range_ok w" and "create_room w st [] (p, s) = (Some (c, ad), p', s')"
  shows "deserialize_room_code (code_str c) = c" "is_ascii (code_str c)"
proof -
  note a = created_code_alnum [OF assms]
  then have "filter is_ascii_alphanumeric (code_str c) = code_str c" by (simp add: filter_id_conv)
  then show "deserialize_room_code (code_str c) = c" by (simp add: deserialize_room_code_def)
  from a show "is_ascii (code_str c)" by (simp add: is_ascii_def)
qed

lemma create_room_created:
  assumes "create_room w st [] (p, s) = (Some (c, ad), p', s')"
  shows "rooms p (code_key w c) = None" "p' = p\<lparr>rooms := (rooms p)(code_key w c \<mapsto> ad)\<rparr>"
    "ad = next_addr s" "heap s' = (heap s)(ad := Room_new w (pool_app_key p) c st)"
proof -
  from created_create_room [OF assms refl] obtain q where
    q: "registry (put_pool (pool_app_key p) p s) (pool_app_key p) = Some q" "rooms q (code_key w c) = None"
      "registry (put_pool (pool_app_key p) p' s') =
         (registry (put_pool (pool_app_key p) p s))(pool_app_key p \<mapsto> q\<lparr>rooms := (rooms q)(code_key w c \<mapsto> ad)\<rparr>)"
    and ad: "ad = next_addr s" "heap s' = (heap s)(ad := Room_new w (pool_app_key p) c st)"
    by (auto simp: created_def)
  from q(1) have qp: "q = p" by simp
  from q(3) have "registry (put_pool (pool_app_key p) p' s') (pool_app_key p) =
      Some (q\<lparr>rooms := (rooms q)(code_key w c \<mapsto> ad)\<rparr>)" by (simp only: fun_upd_same)
  with q(2) qp ad show "rooms p (code_key w c) = None" "p' = p\<lparr>rooms := (rooms p)(code_key w c \<mapsto> ad)\<rparr>"
    "ad = next_addr s" "heap s' = (heap s)(ad := Room_new w (pool_app_key p) c st)"
    by simp_all
qed

text \<open>C31: A room created without a requested code gets a code no room of the pool has, an empty
  room of the pool's app under that code at a fresh address, and nothing else in the pool
  changes; the code is six characters of the alphabet or the fallback \<open>R<n>\<close>.\<close>

theorem created_room_is_new:
  assumes "gen_range_ok w" and "create_room w st [] (p, s) = (Some (c, ad), p', s')"
  shows "rooms p (code_key w c) = None \<and> rooms p' = (rooms p)(code_key w c \<mapsto> ad) \<and>
    pool_app_key p' = pool_app_key p \<and> ad = next_addr s \<and>
    heap s' = (heap s)(ad := Room_new w (pool_app_key p) c st) \<and> members (heap s' ad) = {} \<and>
    (length (code_str c) = 6 \<and> set (code_str c) \<subseteq> set ROOM_CODE_CHARS \<or> (\<exists>n. c = fallback_code n))"
proof -
  have "members (Room_new w (pool_app_key p) c st) = {}"
    by (simp add: dom_member_info [symmetric])
  with create_room_created [OF assms(2)] show ?thesis
    using create_room_codes [OF assms(2)] drawn_code_chars [OF assms(1)] by auto
qed

lemma quiet_gen_range: "gen_range_ok quiet_world"
  by (simp add: gen_range_ok_def quiet_world_def)

definition demo_pool :: room_pool where
  "demo_pool = RoomPool_new ''pong''"

lemma demo_create:
  "\<exists>p' s'. create_room quiet_world default_settings [] (demo_pool, server_init quiet_world) =
     (Some (RoomCode ''ABCDEF'', 0), p', s')"
proof -
  have "drawn_code quiet_world 0 = RoomCode ''ABCDEF''" by code_simp
  then have "random_code quiet_world (server_init quiet_world) =
      (RoomCode ''ABCDEF'', (server_init quiet_world)\<lparr>rng_pos := ROOM_CODE_LEN\<rparr>)"
    by (simp add: random_code_drawn server_init_def)
  then have first: "fst (try_random_codes (Suc n) quiet_world default_settings (demo_pool, server_init quiet_world)) =
      Some (RoomCode ''ABCDEF'', 0)" for n
    by (simp add: try_insert_new_room_def demo_pool_def RoomPool_new_def Let_def)
      (simp add: server_init_def)
  have "ROOM_CODE_GEN_RETRIES = Suc 19" by (simp add: ROOM_CODE_GEN_RETRIES_def)
  with first [of 19] have "fst (try_random_codes ROOM_CODE_GEN_RETRIES quiet_world default_settings
      (demo_pool, server_init quiet_world)) = Some (RoomCode ''ABCDEF'', 0)" by simp
  then show ?thesis by (cases "try_random_codes ROOM_CODE_GEN_RETRIES quiet_world default_settings
      (demo_pool, server_init quiet_world)") (simp add: create_room_def)
qed

theorem created_room_is_new_witness:
  "rooms demo_pool (code_key quiet_world (RoomCode ''ABCDEF'')) = None"
proof -
  obtain p' s' where "create_room quiet_world default_settings [] (demo_pool, server_init quiet_world) =
      (Some (RoomCode ''ABCDEF'', 0), p', s')" using demo_create by blast
  from created_room_is_new [OF quiet_gen_range this] show ?thesis by simp
qed

text \<open>Creating a room without a requested code fails exactly if the twenty random codes drawn
  are all taken and so is the fallback code of the counter's present value.\<close>

theorem create_room_fails_iff:
  "fst (create_room w st [] (p, s)) = None \<longleftrightarrow>
     (\<forall>k < 20. rooms p (code_key w (drawn_code w (rng_pos s + k * 6))) \<noteq> None) \<and>
     rooms p (code_key w (fallback_code (fallback_counter s))) \<noteq> None"
proof -
  note t = try_random_codes_None [of ROOM_CODE_GEN_RETRIES w st p s]
  show ?thesis
  proof (cases "fst (try_random_codes ROOM_CODE_GEN_RETRIES w st (p, s)) = None")
    case True
    with t have eq: "try_random_codes ROOM_CODE_GEN_RETRIES w st (p, s) =
        (None, p, s\<lparr>rng_pos := rng_pos s + ROOM_CODE_GEN_RETRIES * ROOM_CODE_LEN\<rparr>)" by blast
    have "\<forall>k < 20. rooms p (code_key w (drawn_code w (rng_pos s + k * 6))) \<noteq> None"
      using True t by (simp add: ROOM_CODE_GEN_RETRIES_def ROOM_CODE_LEN_def)
    then show ?thesis by (simp add: create_room_def eq try_insert_result Let_def)
  next
    case False
    then obtain x p1 s1 where eq: "try_random_codes ROOM_CODE_GEN_RETRIES w st (p, s) = (Some x, p1, s1)"
      by (metis fst_conv not_None_eq surj_pair)
    from False t have "\<not> (\<forall>k < 20. rooms p (code_key w (drawn_code w (rng_pos s + k * 6))) \<noteq> None)"
      unfolding ROOM_CODE_GEN_RETRIES_def ROOM_CODE_LEN_def by metis
    with eq show ?thesis by (simp add: create_room_def)
  qed
qed

text \<open>A pool of two rooms and a generator that always draws the first letter.\<close>

definition stuck_world :: world where
  "stuck_world = quiet_world\<lparr>w_gen_range := (\<lambda>_ _. 0)\<rparr>"

theorem create_room_fails_iff_witness:
  "fst (create_room stuck_world default_settings []
     (\<lparr>pool_app_key = ''pong'', rooms = [''aaaaaa'' \<mapsto> 0, ''r0'' \<mapsto> 1]\<rparr>, server_init quiet_world)) = None"
proof -
  have d: "code_str (drawn_code stuck_world n) = ''AAAAAA''" for n
    by (simp add: drawn_code_def stuck_world_def ROOM_CODE_LEN_def ROOM_CODE_CHARS_def upt_rec)
  have f: "w_case_fold stuck_world = map ascii_lower" by (simp add: stuck_world_def quiet_world_def)
  have "map ascii_lower ''AAAAAA'' = ''aaaaaa''" "map ascii_lower (code_str (fallback_code 0)) = ''r0''" by code_simp+
  then have "code_key stuck_world (drawn_code stuck_world n) = ''aaaaaa''"
    "code_key stuck_world (fallback_code 0) = ''r0''" for n
    by (simp_all only: code_key_def d f)
  then show ?thesis by (simp add: create_room_fails_iff server_init_def)
qed

text \<open>C30: The code shown for a created room leads back to it however a client writes it on the
  wire: any string whose letters and digits are those of the code up to case finds the room,
  and an ASCII code that differs otherwise finds what it found before.\<close>

theorem created_room_found_any_case:
  assumes "unicase_ok w" and "gen_range_ok w" and "create_room w st [] (p, s) = (Some (c, ad), p', s')"
  shows "get_room w p' (deserialize_room_code wire) =
    (if map ascii_lower (code_str (deserialize_room_code wire)) = map ascii_lower (code_str c)
     then Some ad else get_room w p (deserialize_room_code wire))"
proof -
  let ?t = "code_str (deserialize_room_code wire)"
  have alnum: "is_ascii_alphanumeric x \<Longrightarrow> (of_char x :: nat) < 128" for x
    by (auto simp: is_ascii_alphanumeric_def Let_def)
  have "is_ascii ?t" by (auto simp: is_ascii_def deserialize_room_code_def alnum)
  with created_code_normal(2) [OF assms(2,3)] assms(1) have
    "code_key w (deserialize_room_code wire) = code_key w c \<longleftrightarrow> map ascii_lower ?t = map ascii_lower (code_str c)"
    by (simp add: unicase_ok_def code_key_def)
  with create_room_created(2) [OF assms(3)] show ?thesis by (simp add: get_room_def)
qed

lemma quiet_unicase: "unicase_ok quiet_world"
  by (simp add: unicase_ok_def quiet_world_def)

theorem created_room_found_any_case_witness:
  "\<exists>p'. get_room quiet_world p' (deserialize_room_code '' ab-Cd EF '') = Some 0"
proof -
  obtain p' s' where c: "create_room quiet_world default_settings [] (demo_pool, server_init quiet_world) =
      (Some (RoomCode ''ABCDEF'', 0), p', s')" using demo_create by blast
  have "map ascii_lower (code_str (deserialize_room_code '' ab-Cd EF '')) = map ascii_lower (code_str (RoomCode ''ABCDEF''))"
    unfolding deserialize_room_code_def filter_trim by code_simp
  with created_room_found_any_case [OF quiet_unicase quiet_gen_range c, of "'' ab-Cd EF ''"] show ?thesis by auto
qed

section \<open>Listing and counting\<close>

text \<open>Capacity in terms of the members.\<close>

lemma card_members_u32: "room_wf r \<Longrightarrow> card (members r) < 4294967296"
proof -
  assume "room_wf r"
  then have "0 \<notin> members r" by (simp add: room_wf_def)
  then have "members r \<subset> UNIV" by auto
  then have "card (members r) < card (UNIV :: peer_id set)" by (rule psubset_card_mono [rotated]) simp
  then show ?thesis by (simp add: card_word)
qed

lemma is_full_iff:
  assumes "room_wf r"
  shows "is_full r \<longleftrightarrow> max_players (settings r) \<noteq> 0 \<and> unat (max_players (settings r)) \<le> card (members r)"
  using card_members_u32 [OF assms]
  by (simp add: is_full_def Let_def card_members [OF assms] word_le_nat_alt unat_of_nat del: of_nat_add)

lemma quiet_iter: "iter_ok quiet_world"
  by (simp add: iter_ok_def quiet_world_def)

text \<open>C32: The public listing of the pool of an app has exactly one entry for each of its rooms that is
  public and has a free place (or no limit).  Looking the entry's code up gives that room, its player count is
  the number of accepted and waiting peers, and its settings are the room's but for the password.\<close>

theorem list_public_rooms_exact:
  assumes "iter_ok w" and "server_wf (w_case_fold w) s" and "registry s a = Some p"
  shows "\<exists>ks. distinct ks \<and>
    set ks = {k. \<exists>ad. rooms p k = Some ad \<and> is_public (settings (heap s ad)) \<and>
      (max_players (settings (heap s ad)) = 0 \<or>
       card (members (heap s ad)) < unat (max_players (settings (heap s ad))))} \<and>
    list_all2 (\<lambda>k e. \<exists>ad. rooms p k = Some ad \<and> lookup_room w s a (rle_room_code e) = Some ad \<and>
        rle_room_code e = code (heap s ad) \<and> unat (rle_player_count e) = card (members (heap s ad)) \<and>
        rle_settings e = (settings (heap s ad))\<lparr>password := None\<rparr>)
      ks (list_public_rooms w p s)"
proof -
  let ?ks = "w_iter w (pool_app_key p) (dom (rooms p))" and ?r = "\<lambda>k. heap s (the (rooms p k))"
  let ?ok = "\<lambda>k. is_public (settings (?r k)) \<and> \<not> is_full (?r k)"
  let ?e = "\<lambda>k e. \<exists>ad. rooms p k = Some ad \<and> lookup_room w s a (rle_room_code e) = Some ad \<and>
        rle_room_code e = code (heap s ad) \<and> unat (rle_player_count e) = card (members (heap s ad)) \<and>
        rle_settings e = (settings (heap s ad))\<lparr>password := None\<rparr>"
  note wf = server_wfD [OF assms(2)]
  have ks: "distinct ?ks" "set ?ks = dom (rooms p)" using assms(1) wf(2) [OF assms(3)] by (simp_all add: iter_ok_def)
  have entry: "?e k (room_entry (heap s ad))" if k: "rooms p k = Some ad" for k ad
  proof -
    have "registered s a k ad" using assms(3) k by (simp add: registered_def)
    from wf(3) [OF this] have "code_key w (code (heap s ad)) = k" by (simp add: code_key_def)
    then have "lookup_room w s a (code (heap s ad)) = Some ad"
      using assms(3) k by (simp add: lookup_room_def get_room_def)
    moreover have "unat (word_of_nat (hm_len (clients (heap s ad)) + hm_len (pending (heap s ad))) :: u32) =
        card (members (heap s ad))"
      using card_members_u32 [OF wf(1), of ad]
      by (simp add: card_members [OF wf(1)] unat_of_nat del: of_nat_add)
    ultimately show ?thesis using k by (simp add: room_entry_def del: of_nat_add)
  qed
  have list: "list_public_rooms w p s = map (\<lambda>k. room_entry (?r k)) (filter ?ok ?ks)"
    by (simp add: list_public_rooms_def iter_rooms_def filter_map comp_def)
  have "?e k (room_entry (?r k))" if "k \<in> set (filter ?ok ?ks)" for k
  proof -
    from that ks(2) obtain ad where k: "rooms p k = Some ad" by auto
    then have "?r k = heap s ad" by simp
    then show ?thesis using entry [OF k] by (simp only:)
  qed
  then have "list_all2 ?e (filter ?ok ?ks) (list_public_rooms w p s)"
    unfolding list by (simp add: list_all2_map2 list.rel_refl_strong list_all2_same)
  moreover have "set (filter ?ok ?ks) = {k. \<exists>ad. rooms p k = Some ad \<and> is_public (settings (heap s ad)) \<and>
      (max_players (settings (heap s ad)) = 0 \<or>
       card (members (heap s ad)) < unat (max_players (settings (heap s ad))))}"
    using ks(2) by (auto simp: is_full_iff [OF wf(1)] not_le)
  ultimately show ?thesis using ks(1) by (intro exI [of _ "filter ?ok ?ks"]) simp
qed

lemma singleton_list: "distinct xs \<Longrightarrow> set xs = {x} \<Longrightarrow> xs = [x]"
  by (cases xs) (auto simp: subset_singleton_iff subset_insert_iff dest: equalityD1)

text \<open>A pool with one public room of two clients.\<close>

definition listed_pool :: room_pool where
  "listed_pool = \<lparr>pool_app_key = ''pong'', rooms = [''abc'' \<mapsto> 0]\<rparr>"

definition listed_store :: server where
  "listed_store = (server_init quiet_world)
     \<lparr>registry := [''pong'' \<mapsto> listed_pool], next_addr := 1,
      heap := (heap (server_init quiet_world))(0 := demo_room [entry1, entry2] [] (default_settings\<lparr>is_public := True\<rparr>))\<rparr>"

lemma listed_store_simps:
  "registry listed_store ''pong'' = Some listed_pool"
  "heap listed_store 0 = demo_room [entry1, entry2] [] (default_settings\<lparr>is_public := True\<rparr>)"
  by (simp_all add: listed_store_def)

lemma listed_pool_rooms: "rooms listed_pool k = Some ad \<longleftrightarrow> k = ''abc'' \<and> ad = 0"
  by (auto simp: listed_pool_def split: if_splits)

lemma listed_store_wf: "server_wf (w_case_fold quiet_world) listed_store"
proof -
  have "map ascii_lower ''ABC'' = ''abc''" by code_simp
  then show ?thesis
    by (auto simp: server_wf_def listed_store_def listed_pool_def registered_def server_init_def demo_room_wf
        cache_plain_def quiet_world_def split: if_splits)
qed

theorem list_public_rooms_exact_witness:
  "\<exists>e. list_public_rooms quiet_world listed_pool listed_store = [e] \<and> unat (rle_player_count e) = 2 \<and>
     lookup_room quiet_world listed_store ''pong'' (rle_room_code e) = Some 0"
proof -
  let ?r = "demo_room [entry1, entry2] [] (default_settings\<lparr>is_public := True\<rparr>)"
  from list_public_rooms_exact [OF quiet_iter listed_store_wf listed_store_simps(1)] obtain ks where
    ks: "distinct ks" "set ks = {k. \<exists>ad. rooms listed_pool k = Some ad \<and> is_public (settings (heap listed_store ad)) \<and>
      (max_players (settings (heap listed_store ad)) = 0 \<or>
       card (members (heap listed_store ad)) < unat (max_players (settings (heap listed_store ad))))}"
    and es: "list_all2 (\<lambda>k e. \<exists>ad. rooms listed_pool k = Some ad \<and>
        lookup_room quiet_world listed_store ''pong'' (rle_room_code e) = Some ad \<and>
        rle_room_code e = code (heap listed_store ad) \<and> unat (rle_player_count e) = card (members (heap listed_store ad)) \<and>
        rle_settings e = (settings (heap listed_store ad))\<lparr>password := None\<rparr>)
      ks (list_public_rooms quiet_world listed_pool listed_store)" by blast
  have "set ks = {''abc''}" unfolding ks(2)
    by (simp add: listed_pool_rooms listed_store_simps default_settings_def)
  from singleton_list [OF ks(1) this] have "ks = [''abc'']" .
  with es [unfolded listed_pool_rooms] obtain e where e: "list_public_rooms quiet_world listed_pool listed_store = [e]"
    and "lookup_room quiet_world listed_store ''pong'' (rle_room_code e) = Some 0"
      "unat (rle_player_count e) = card (members ?r)"
    by (auto simp: list_all2_Cons1 listed_store_simps)
  moreover have "card (members ?r) = 2" by simp
  ultimately show ?thesis by simp
qed

lemma collect_stats_exact:
  assumes "iter_ok w" and "finite (dom (registry s))"
    and "\<forall>a p. registry s a = Some p \<longrightarrow> finite (dom (rooms p))" and "\<forall>ad. room_wf (heap s ad)"
  shows "distinct (map gs_id (collect_stats w s)) \<and> gs_id ` set (collect_stats w s) = dom (registry s) \<and>
    (\<forall>g \<in> set (collect_stats w s). \<exists>p. registry s (gs_id g) = Some p \<and>
       gs_rooms g = word_of_nat (card (dom (rooms p))) \<and>
       gs_players g = word_of_nat (\<Sum>k \<in> dom (rooms p). card (members (heap s (the (rooms p k))))))"
proof -
  let ?as = "w_iter w [] (dom (registry s))"
  have as: "distinct ?as" "set ?as = dom (registry s)" using assms(1,2) by (simp_all add: iter_ok_def)
  have count: "room_and_player_counts w p s =
      (card (dom (rooms p)), \<Sum>k \<in> dom (rooms p). card (members (heap s (the (rooms p k)))))"
    if "registry s a = Some p" for a p
  proof -
    have fin: "finite (dom (rooms p))" using assms(3) that by blast
    have "player_count (heap s ad) = card (members (heap s ad))" for ad
      using assms(4) by (simp add: player_count_def card_members)
    then show ?thesis using room_and_player_counts_sum [OF assms(1) fin] by simp
  qed
  have ids: "map gs_id (collect_stats w s) = ?as"
    by (simp add: collect_stats_def comp_def case_prod_beta)
  show ?thesis
  proof (intro conjI ballI)
    show "distinct (map gs_id (collect_stats w s))" using ids as(1) by simp
    show "gs_id ` set (collect_stats w s) = dom (registry s)" using ids as(2) by (metis list.set_map)
    fix g assume "g \<in> set (collect_stats w s)"
    then obtain a where a: "a \<in> dom (registry s)" and g: "g =
        (let (n, players) = room_and_player_counts w (the (registry s a)) s
         in \<lparr>gs_id = a, gs_rooms = word_of_nat n, gs_players = word_of_nat players\<rparr>)"
      by (auto simp: collect_stats_def as(2) simp del: dom_def)
    from a obtain p where p: "registry s a = Some p" by auto
    from g show "\<exists>p. registry s (gs_id g) = Some p \<and> gs_rooms g = word_of_nat (card (dom (rooms p))) \<and>
        gs_players g = word_of_nat (\<Sum>k \<in> dom (rooms p). card (members (heap s (the (rooms p k)))))"
      by (simp add: p count [OF p])
  qed
qed

text \<open>C38: The response to a statistics request has one record for each app of the registry, with the
  number of its rooms and the number of peers in them, as 32-bit integers.\<close>

theorem stats_response_exact:
  assumes "iter_ok w" and "finite (dom (registry s))"
    and "\<forall>a p. registry s a = Some p \<longrightarrow> finite (dom (rooms p))" and "\<forall>ad. room_wf (heap s ad)"
  shows "distinct (map gs_id (games (stats_handler w s))) \<and>
    gs_id ` set (games (stats_handler w s)) = dom (registry s) \<and>
    (\<forall>g \<in> set (games (stats_handler w s)). \<exists>p. registry s (gs_id g) = Some p \<and>
       gs_rooms g = word_of_nat (card (dom (rooms p))) \<and>
       gs_players g = word_of_nat (\<Sum>k \<in> dom (rooms p). card (members (heap s (the (rooms p k))))))"
  unfolding stats_handler_def stats_response.simps by (rule collect_stats_exact [OF assms])

theorem stats_response_exact_witness:
  "gs_id ` set (games (stats_handler quiet_world (put_pool ''pong'' demo_pool (server_init quiet_world)))) = {''pong''}"
proof -
  let ?s = "put_pool ''pong'' demo_pool (server_init quiet_world)"
  have s: "registry ?s = [''pong'' \<mapsto> demo_pool]" "heap ?s = heap (server_init quiet_world)"
    by simp_all (simp add: server_init_def)
  have "finite (dom (registry ?s))" "\<forall>a p. registry ?s a = Some p \<longrightarrow> finite (dom (rooms p))"
    "\<forall>ad. room_wf (heap ?s ad)"
    unfolding s by (auto simp: demo_pool_def RoomPool_new_def server_init_def split: if_splits)
  from stats_response_exact [OF quiet_iter this] show ?thesis by (simp only: s) simp
qed

section \<open>Apps and addresses\<close>

text \<open>Once an app key has been found registered it stays registered, with the same default room
  settings, whatever later happens to the files, as long as the cache only grows; the defaults
  never hold a password or an acceptance step.\<close>

theorem registration_is_permanent:
  assumes "cache_plain c" and "is_registered_app w a c = (True, c1)" and "c1 \<subseteq>\<^sub>m c2" and "cache_plain c2"
  shows "\<exists>st. plain_defaults st \<and> (\<forall>w'. is_registered_app w' a c2 = (True, c2) \<and>
    default_room_settings_for_app w' a c2 = (st, c2))"
proof -
  from is_registered_appD [OF assms(2)] obtain st where "c1 a = Some st" by blast
  with assms(3) have "c2 a = Some st" by (metis domI map_le_def)
  with assms(4) show ?thesis
    by (intro exI [of _ st]) (auto simp: cache_plain_def is_registered_app_def default_settings_cached)
qed

theorem registration_is_permanent_witness:
  "\<exists>st c2. is_registered_app quiet_world ''pong'' c2 = (True, c2) \<and> plain_defaults st"
proof -
  let ?c = "[''pong'' \<mapsto> app_fallback ''pong'']"
  have "is_registered_app quiet_world ''pong'' Map.empty = (True, ?c)"
    by (simp add: is_registered_app_def is_builtin_app_def)
  moreover have "cache_plain Map.empty" "cache_plain ?c" by (simp_all add: cache_plain_def plain_fallback)
  ultimately show ?thesis using registration_is_permanent [of Map.empty quiet_world "''pong''" ?c ?c] by auto
qed

text \<open>C40: An app key that starts with a slash is looked for outside the app directory: it counts as
  registered exactly if the file at that absolute path, with \<open>.json\<close> appended, can be read
  and parsed.\<close>

theorem absolute_app_key_escapes:
  assumes "app_dir w = Some dir" and "c (CHR ''/'' # rest) = None"
  shows "fst (is_registered_app w (CHR ''/'' # rest) c) \<longleftrightarrow>
    (\<exists>contents. w_read_to_string w (CHR ''/'' # rest @ ''.json'') = Some contents \<and> w_parse_defaults w contents \<noteq> None)"
  using assms
  by (auto simp: is_registered_app_def is_builtin_app_def load_settings_from_disk_def path_join_def Let_def
      split: option.splits bind_splits)

definition open_world :: world where
  "open_world = quiet_world\<lparr>w_app_dir := Some ''/srv/apps'', w_is_dir := (\<lambda>d. d = ''/srv/apps''),
     w_read_to_string := (\<lambda>p. if p = ''/tmp/x.json'' then Some ''{}'' else None),
     w_parse_defaults := (\<lambda>_. Some (None, None))\<rparr>"

theorem absolute_app_key_escapes_witness:
  "fst (is_registered_app open_world ''/tmp/x'' Map.empty)"
proof -
  have "app_dir open_world = Some ''/srv/apps''" by code_simp
  from absolute_app_key_escapes [OF this, of Map.empty "''tmp/x''"] show ?thesis
    by (simp add: open_world_def)
qed

text \<open>With no argument the server listens for TCP, WebSocket and HTTP on its default addresses;
  with one argument only for TCP, with two for TCP and WebSocket, with three or more for all.\<close>

theorem main_binds_by_arguments:
  "main_binds [prog] = (''0.0.0.0:8765'', Some ''0.0.0.0:8766'', Some ''0.0.0.0:80'') \<and>
   main_binds [prog, tcp] = (tcp, None, None) \<and>
   main_binds [prog, tcp, ws] = (tcp, Some ws, None) \<and>
   main_binds (prog # tcp # ws # http # rest) = (tcp, Some ws, Some http)"
  by (simp add: main_binds_def get_arg_def Let_def)

end
