(* ===== verification/Interleaving.thy ===== *)
theory Interleaving
  imports Pool_Guarantees Scenario
begin

text \<open>
  Departures, and what other tasks can do between the phases of a Hello or of a departure.
  \<open>handle_hello\<close> looks its room up (\<open>hello_room\<close>), lets the pool go, and only then takes the
  room's mutex (\<open>hello_join\<close>); \<open>leave_room\<close> works on the room under its mutex and then asks the
  pool to drop the entry, which is refused while another task holds the mutex.
\<close>

section \<open>Leaving an otherwise empty room\<close>

lemma lookup_room_case_fold: "w_case_fold w' = w_case_fold w \<Longrightarrow> lookup_room w' = lookup_room w"
  by (simp add: fun_eq_iff lookup_room_def get_room_def code_key_def)

lemma leave_last_room:
  assumes wf: "room_wf (heap s ad)" and look: "lookup_room w s a c = Some ad" and mem: "members (heap s ad) = {pid}"
  obtains p r lg where "registry s a = Some p" "rooms p (code_key w c) = Some ad" "members r = {}" "room_wf r"
    "leave_room w a c pid s =
       s\<lparr>heap := (heap s)(ad := r), sends := lg,
         registry := (registry s)(a \<mapsto> (if ad \<in> locked s then p else p\<lparr>rooms := (rooms p)(code_key w c := None)\<rparr>))\<rparr>"
proof -
  obtain r lg where run: "leave_in_room w pid (heap s ad, sends s) = (r, lg)" by fastforce
  from look obtain p where p: "registry s a = Some p" "rooms p (code_key w c) = Some ad"
    by (auto simp: lookup_room_def get_room_def bind_eq_Some_conv)
  have k: "keeps (remove_member pid (heap s ad)) r" using leave_in_room_gone [OF wf run] by blast
  have "members (remove_member pid (heap s ad)) = {}"
    using mem by (simp add: dom_member_info [symmetric] member_info_remove_member)
  with keeps_members [OF k] have e: "members r = {}" by simp
  have "leave_room w a c pid s =
      s\<lparr>heap := (heap s)(ad := r), sends := lg,
        registry := (registry s)(a \<mapsto> (if ad \<in> locked s then p else p\<lparr>rooms := (rooms p)(code_key w c := None)\<rparr>))\<rparr>"
    using p look run e
    by (simp add: leave_room_def with_room_def Let_def drop_if_empty_def remove_if_empty_def room_is_empty_members)
  with p e keeps_wf [OF k] show thesis by (rule that)
qed

text \<open>When the last member of a room leaves and no other task holds the room's mutex, the room's
  entry is gone from its pool, and every other entry of every pool is as before.\<close>

theorem last_leave_unregisters:
  assumes "room_wf (heap s ad)" and "lookup_room w s a c = Some ad" and "members (heap s ad) = {pid}"
    and "ad \<notin> locked s"
  shows "lookup_room w (leave_room w a c pid s) a c = None \<and>
    (\<forall>a' c'. a' \<noteq> a \<or> code_key w c' \<noteq> code_key w c \<longrightarrow>
       lookup_room w (leave_room w a c pid s) a' c' = lookup_room w s a' c')"
proof -
  obtain p r lg where p: "registry s a = Some p" "rooms p (code_key w c) = Some ad"
    and eq: "leave_room w a c pid s = s\<lparr>heap := (heap s)(ad := r), sends := lg,
       registry := (registry s)(a \<mapsto> (if ad \<in> locked s then p else p\<lparr>rooms := (rooms p)(code_key w c := None)\<rparr>))\<rparr>"
    using leave_last_room [OF assms(1-3)] by metis
  show ?thesis using assms(4) p by (auto simp: eq lookup_room_def get_room_def)
qed

definition lonely_room :: room where
  "lonely_room = demo_room [entry1] [] default_settings"

lemma lonely_room_simps [simp]: "room_wf lonely_room" "members lonely_room = {1}"
  by (auto simp: lonely_room_def demo_room_wf)

definition lonely_server :: "addr set \<Rightarrow> server" where
  "lonely_server held = (server_init quiet_world)\<lparr>heap := (heap (server_init quiet_world))(0 := lonely_room),
     next_addr := 1, locked := held,
     registry := [''pong'' \<mapsto> \<lparr>pool_app_key = ''pong'', rooms = [''abc'' \<mapsto> 0]\<rparr>]\<rparr>"

lemma lonely_server_simps [simp]:
  "heap (lonely_server held) 0 = lonely_room" "locked (lonely_server held) = held"
  "lookup_room quiet_world (lonely_server held) ''pong'' (RoomCode ''ABC'') = Some 0"
proof -
  have "code_key quiet_world (RoomCode ''ABC'') = ''abc''" by code_simp
  then show "lookup_room quiet_world (lonely_server held) ''pong'' (RoomCode ''ABC'') = Some 0"
    by (simp add: lonely_server_def lookup_room_def get_room_def)
qed (simp_all add: lonely_server_def)

theorem last_leave_unregisters_witness:
  "lookup_room quiet_world (leave_room quiet_world ''pong'' (RoomCode ''ABC'') 1 (lonely_server {}))
     ''pong'' (RoomCode ''ABC'') = None"
  using last_leave_unregisters [of "lonely_server {}" 0 quiet_world "''pong''" "RoomCode ''ABC''" 1] by simp

text \<open>When the last member leaves while another task holds the room's mutex, the empty room
  stays in the pool: it is found and counted as before, and a join that the other task then
  refuses leaves it there.\<close>

theorem busy_empty_room_stays:
  assumes "room_wf (heap s ad)" and "lookup_room w s a c = Some ad" and "members (heap s ad) = {pid}"
    and "ad \<in> locked s" and "w_case_fold w' = w_case_fold w"
    and "hello_join w' a c ad i h d pw (leave_room w a c pid s) = ([Error e], None, s')"
  shows "lookup_room w s' a c = Some ad \<and> members (heap s' ad) = {}"
proof -
  obtain p r lg where p: "registry s a = Some p" "rooms p (code_key w c) = Some ad" and r: "members r = {}"
    and eq: "leave_room w a c pid s = s\<lparr>heap := (heap s)(ad := r), sends := lg,
       registry := (registry s)(a \<mapsto> (if ad \<in> locked s then p else p\<lparr>rooms := (rooms p)(code_key w c := None)\<rparr>))\<rparr>"
    using leave_last_room [OF assms(1-3)] by metis
  let ?s1 = "leave_room w a c pid s"
  obtain res r2 lg2 where j: "join_room w' c i h d pw (heap ?s1 ad, sends ?s1) = (res, (r2, lg2))" by (metis surj_pair)
  with assms(6) have res: "res = Inl e" and s': "s' = ?s1\<lparr>heap := (heap ?s1)(ad := r2), sends := lg2\<rparr>"
    by (auto simp: hello_join_def Let_def split: sum.splits)
  from join_room_Inl [OF j [unfolded res]] obtain n where "r2 = heap ?s1 ad\<lparr>next_peer_id := n\<rparr>" by blast
  then have "members r2 = {}" using r by (simp add: eq)
  moreover have "registry s' a = Some p" using assms(4) by (simp add: s' eq)
  ultimately show ?thesis using p(2) by (simp add: s' lookup_room_def get_room_def)
qed

theorem busy_empty_room_stays_witness:
  "\<exists>s'. lookup_room quiet_world s' ''pong'' (RoomCode ''ABC'') = Some 0 \<and> members (heap s' 0) = {}"
proof -
  define s where "s = (lonely_server {0})\<lparr>heap := (heap (lonely_server {0}))
     (0 := lonely_room\<lparr>settings := default_settings\<lparr>password := Some ''x''\<rparr>\<rparr>)\<rparr>"
  have s: "room_wf (heap s 0)" "lookup_room quiet_world s ''pong'' (RoomCode ''ABC'') = Some 0"
    "members (heap s 0) = {1}" "0 \<in> locked s" "settings (heap s 0) = default_settings\<lparr>password := Some ''x''\<rparr>"
    using lonely_server_simps(3) [of "{0}"] by (simp_all add: s_def lookup_room_def)
  let ?s1 = "leave_room quiet_world ''pong'' (RoomCode ''ABC'') 1 s"
  obtain r lg where run: "leave_in_room quiet_world 1 (heap s 0, sends s) = (r, lg)" by fastforce
  have "leave_in_room quiet_world 1 (heap s 0, sends s) = (remove_member 1 (heap s 0), sends s)"
    by (rule leave_in_room_last(1) [OF s(1,3)])
  then have "heap ?s1 0 = remove_member 1 (heap s 0)"
    using s(2) by (simp add: leave_room_def with_room_def Let_def drop_if_empty_def split: option.splits)
  then have "fst (join_room quiet_world (RoomCode ''ABC'') 5 ''h'' None None (heap ?s1 0, sends ?s1)) =
      Inl ''invalid or missing room password''"
    using s(5)
    by (simp add: join_room_def is_banned_def is_full_def password_ok_def or_empty_def remove_member_def
        default_settings_def s_def lonely_room_def)
  then obtain r2 lg2 where "join_room quiet_world (RoomCode ''ABC'') 5 ''h'' None None (heap ?s1 0, sends ?s1) =
      (Inl ''invalid or missing room password'', (r2, lg2))" by (metis fst_conv surj_pair)
  then obtain s' where "hello_join quiet_world ''pong'' (RoomCode ''ABC'') 0 5 ''h'' None None ?s1 =
      ([Error ''invalid or missing room password''], None, s')"
    by (simp add: hello_join_def)
  from busy_empty_room_stays [OF s(1-4) refl this] show ?thesis by (rule exI)
qed

section \<open>Joining a room that is being dropped\<close>

text \<open>A Hello that looked a room up before its last member left joins the room all the same: it
  is told so and gets a session, but the room is in no pool any more, so nobody can find it
  and none of the newcomer's own moves and inputs has any effect.\<close>

theorem join_can_be_orphaned:
  assumes "room_wf (heap s ad)" and "code_str c \<noteq> []" and "hello_room w a c s = (Inr (c, ad), s)"
    and "members (heap s ad) = {pid}" and "ad \<notin> locked s" and "w_case_fold w' = w_case_fold w"
    and "hello_join w' a c ad i h d pw (leave_room w a c pid s) = (out, Some ss, s')"
  shows "lookup_room w s' a c = None \<and> s_app_key ss = a \<and> s_room_code ss = c \<and>
    member_info (heap s' ad) (s_peer_id ss) \<noteq> None \<and> (\<exists>p q sd st b. out = [Joined c p q sd st b]) \<and>
    (\<forall>w2 blob. w_case_fold w2 = w_case_fold w \<longrightarrow>
       dispatch w2 (Some ss) i (Move blob) s' = ([], Some ss, s') \<and>
       dispatch w2 (Some ss) i (Input blob) s' = ([], Some ss, s'))"
proof -
  obtain p0 where p0: "registry s a = Some p0" "get_room w p0 c = Some ad"
    using assms(2,3) by (auto simp: hello_room_def Let_def get_room_def RoomPool_new_def split: option.splits)
  then have look: "lookup_room w s a c = Some ad" by (simp add: lookup_room_def)
  let ?s1 = "leave_room w a c pid s"
  obtain p r lg where p: "registry s a = Some p" and r: "room_wf r"
    and eq: "?s1 = s\<lparr>heap := (heap s)(ad := r), sends := lg,
       registry := (registry s)(a \<mapsto> (if ad \<in> locked s then p else p\<lparr>rooms := (rooms p)(code_key w c := None)\<rparr>))\<rparr>"
    using leave_last_room [OF assms(1) look assms(4)] by metis
  obtain res r2 lg2 where j: "join_room w' c i h d pw (heap ?s1 ad, sends ?s1) = (res, (r2, lg2))" by (metis surj_pair)
  with assms(7) obtain q joined where res: "res = Inr (q, joined)" and out: "out = [joined]"
    and ss: "ss = \<lparr>s_app_key = a, s_room_code = c, s_peer_id = q\<rparr>"
    and s': "s' = ?s1\<lparr>heap := (heap ?s1)(ad := r2), sends := lg2\<rparr>"
    by (auto simp: hello_join_def Let_def split: sum.splits)
  have "room_wf (heap ?s1 ad)" using r by (simp add: eq)
  note ji = join_room_Inr [OF this j [unfolded res]]
  have none: "lookup_room w s' a c = None"
    using assms(5) by (simp add: s' eq lookup_room_def get_room_def)
  have "member_info (heap s' ad) q \<noteq> None" using ji(1) by (simp add: s' admitted_def)
  moreover have "dispatch w2 (Some ss) i (Move blob) s' = ([], Some ss, s') \<and>
      dispatch w2 (Some ss) i (Input blob) s' = ([], Some ss, s')" if "w_case_fold w2 = w_case_fold w" for w2 blob
    using none lookup_room_case_fold [OF that] ss
    by (simp add: dispatch_defs with_session_def in_session_room_def)
  ultimately show ?thesis using none ss out ji(3) by simp
qed

theorem join_can_be_orphaned_witness:
  "\<exists>s' q. lookup_room quiet_world s' ''pong'' (RoomCode ''ABC'') = None \<and> member_info (heap s' 0) q \<noteq> None"
proof -
  let ?c = "RoomCode ''ABC''" and ?s = "lonely_server {}"
  let ?s1 = "leave_room quiet_world ''pong'' ?c 1 ?s"
  have wf: "room_wf (heap ?s 0)" and look: "lookup_room quiet_world ?s ''pong'' ?c = Some 0"
    and mem: "members (heap ?s 0) = {1}" by simp_all
  have hr: "hello_room quiet_world ''pong'' ?c ?s = (Inr (?c, 0), ?s)"
    using look by (simp add: hello_room_def lookup_room_def lonely_server_def Let_def)
  obtain r lg where run: "leave_in_room quiet_world 1 (heap ?s 0, sends ?s) = (r, lg)" by fastforce
  have "leave_in_room quiet_world 1 (heap ?s 0, sends ?s) = (remove_member 1 lonely_room, sends ?s)"
    using leave_in_room_last(1) [OF wf mem] by simp
  then have h: "heap ?s1 0 = remove_member 1 lonely_room"
    using look by (simp add: leave_room_def with_room_def Let_def drop_if_empty_def split: option.splits)
  have "room_wf (remove_member 1 lonely_room)" by simp
  moreover have "\<not> is_banned (remove_member 1 lonely_room) (ClientHash ''h'')"
    "\<not> is_full (remove_member 1 lonely_room)" "password_ok (remove_member 1 lonely_room) None"
    by (simp_all add: is_banned_def is_full_def password_ok_def remove_member_def lonely_room_def default_settings_def)
  moreover have "(1 :: peer_id) \<noteq> 0" "1 \<notin> members (remove_member 1 lonely_room)"
    by (simp_all add: dom_member_info [symmetric] member_info_remove_member)
  ultimately obtain pid joined r' lg' where
    "join_room quiet_world ?c 5 ''h'' None None (remove_member 1 lonely_room, sends ?s1) = (Inr (pid, joined), (r', lg'))"
    using join_room_succeeds by metis
  then obtain out ss s' where "hello_join quiet_world ''pong'' ?c 0 5 ''h'' None None ?s1 = (out, Some ss, s')"
    by (simp add: hello_join_def h)
  from join_can_be_orphaned [OF wf _ hr mem _ refl this] show ?thesis
    by (intro exI [of _ s'] exI [of _ "s_peer_id ss"]) simp
qed

end
