(* ===== verification/Frame.thy ===== *)
theory Frame
  imports World
begin

text \<open>
  Framing: \<open>protocol/frame.rs\<close> and the frames the WebSocket handler of \<open>server/mod.rs\<close>
  builds and takes apart by hand (a 4-byte little-endian length, then the payload), and
  \<open>ProtocolMessage::encode\<close> / \<open>decode\<close> of \<open>protocol/messages.rs\<close>.
\<close>

definition MAX_FRAME_LEN :: nat where "MAX_FRAME_LEN = 64 * 1024"

text \<open>What \<open>frame_codec\<close> asks of the \<open>LengthDelimitedCodec\<close> that frames TCP connections.\<close>

record codec_config =
  length_field_length :: nat
  little_endian :: bool
  max_frame_length :: nat

definition frame_codec :: codec_config where
  "frame_codec = \<lparr>length_field_length = 4, little_endian = True, max_frame_length = MAX_FRAME_LEN\<rparr>"

text \<open>
  \<open>u32::from_le_bytes\<close> and \<open>u32::to_le_bytes\<close>.
\<close>

fun le_value :: "byte list \<Rightarrow> nat" where
  "le_value [] = 0"
| "le_value (b # bs) = unat b + 256 * le_value bs"

fun le_bytes :: "nat \<Rightarrow> nat \<Rightarrow> byte list" where
  "le_bytes 0 n = []"
| "le_bytes (Suc k) n = word_of_nat n # le_bytes k (n div 256)"

definition u32_from_le_bytes :: "byte list \<Rightarrow> u32" where
  "u32_from_le_bytes bs = word_of_nat (le_value bs)"

definition u32_to_le_bytes :: "u32 \<Rightarrow> byte list" where
  "u32_to_le_bytes n = le_bytes 4 (unat n)"

lemma length_le_bytes [simp]: "length (le_bytes k n) = k"
  by (induction k arbitrary: n) auto

lemma unat_byte_of_nat: "unat (word_of_nat n :: byte) = n mod 256"
  by (simp add: unat_of_nat)

lemma le_value_bytes: "le_value (le_bytes k n) = n mod 256 ^ k"
  by (induction k arbitrary: n) (simp_all add: unat_byte_of_nat mod_mult2_eq add.commute)

lemma le_bytes_value: "le_bytes (length bs) (le_value bs) = bs"
proof (induction bs)
  case (Cons b bs)
  have "(unat b + 256 * le_value bs) div 256 = le_value bs"
    using unat_byte_lt [of b] by simp
  moreover have "(word_of_nat (unat b + 256 * le_value bs) :: byte) = b"
    using unat_byte_lt [of b] by (simp only: word_unat_eq_iff unat_byte_of_nat) simp
  ultimately show ?case using Cons by simp
qed simp

lemma le_value_less: "le_value bs < 256 ^ length bs"
proof (induction bs)
  case (Cons b bs)
  then show ?case using unat_byte_lt [of b] by simp
qed simp

lemma length_u32_to_le_bytes [simp]: "length (u32_to_le_bytes n) = 4"
  by (simp add: u32_to_le_bytes_def)

lemma u32_le_bytes_roundtrip [simp]: "u32_from_le_bytes (u32_to_le_bytes n) = n"
  using unat_u32_lt [of n] by (simp add: u32_from_le_bytes_def u32_to_le_bytes_def le_value_bytes)

lemma u32_to_from_le_bytes:
  assumes "length bs = 4"
  shows "u32_to_le_bytes (u32_from_le_bytes bs) = bs"
proof -
  have "le_value bs < 4294967296" using le_value_less [of bs] assms by simp
  then have "unat (u32_from_le_bytes bs) = le_value bs"
    by (simp add: u32_from_le_bytes_def unat_of_nat)
  then show ?thesis using le_bytes_value [of bs] assms by (simp add: u32_to_le_bytes_def)
qed

section \<open>WebSocket frames\<close>

text \<open>One binary WebSocket message in: its payload, or the error sent back to the client.\<close>

definition ws_unframe :: "byte list \<Rightarrow> string + byte list" where
  "ws_unframe msg =
     (if length msg < 4 then Inl ''frame too short''
      else let len = unat (u32_from_le_bytes (take 4 msg))
           in if MAX_FRAME_LEN < len \<or> length msg \<noteq> 4 + len then Inl ''invalid frame length''
              else Inr (drop 4 msg))"

text \<open>One payload out: the cast to \<open>u32\<close> is the source's.\<close>

definition ws_frame :: "byte list \<Rightarrow> byte list" where
  "ws_frame payload = u32_to_le_bytes (word_of_nat (length payload)) @ payload"

lemma unat_length_u32: "n \<le> MAX_FRAME_LEN \<Longrightarrow> unat (word_of_nat n :: u32) = n"
  by (simp add: MAX_FRAME_LEN_def unat_of_nat)

lemma ws_unframe_frame: "length p \<le> MAX_FRAME_LEN \<Longrightarrow> ws_unframe (ws_frame p) = Inr p"
  by (simp add: ws_unframe_def ws_frame_def unat_length_u32)

lemma ws_unframe_InrD:
  assumes "ws_unframe msg = Inr p"
  shows "msg = ws_frame p" and "length p \<le> MAX_FRAME_LEN"
proof -
  from assms have len: "4 \<le> length msg" "unat (u32_from_le_bytes (take 4 msg)) \<le> MAX_FRAME_LEN"
    "length msg = 4 + unat (u32_from_le_bytes (take 4 msg))" and p: "p = drop 4 msg"
    by (auto simp: ws_unframe_def Let_def split: if_splits)
  then show le: "length p \<le> MAX_FRAME_LEN" by simp
  from len p have "word_of_nat (length p) = u32_from_le_bytes (take 4 msg)" by simp
  then have "ws_frame p = u32_to_le_bytes (u32_from_le_bytes (take 4 msg)) @ drop 4 msg"
    by (simp add: ws_frame_def p)
  also have "\<dots> = msg" using len by (simp add: u32_to_from_le_bytes)
  finally show "msg = ws_frame p" ..
qed

text \<open>
  The WebSocket framing is the one the codec is configured for: a prefix of the configured width
  and byte order, and no payload above the configured limit.
\<close>

definition length_prefix :: "codec_config \<Rightarrow> nat \<Rightarrow> byte list" where
  "length_prefix cfg n =
     (let bs = le_bytes (length_field_length cfg) n in if little_endian cfg then bs else rev bs)"

lemma ws_frame_codec:
  "length p \<le> max_frame_length frame_codec \<Longrightarrow> ws_frame p = length_prefix frame_codec (length p) @ p"
  by (simp add: ws_frame_def length_prefix_def frame_codec_def u32_to_le_bytes_def unat_length_u32)

lemma ws_unframe_codec:
  "ws_unframe msg = Inr p \<longleftrightarrow>
     length p \<le> max_frame_length frame_codec \<and> msg = length_prefix frame_codec (length p) @ p"
proof
  assume "ws_unframe msg = Inr p"
  from ws_unframe_InrD [OF this] ws_frame_codec [of p]
  show "length p \<le> max_frame_length frame_codec \<and> msg = length_prefix frame_codec (length p) @ p"
    by (simp add: frame_codec_def)
next
  assume a: "length p \<le> max_frame_length frame_codec \<and> msg = length_prefix frame_codec (length p) @ p"
  then have "msg = ws_frame p" using ws_frame_codec by simp
  moreover have "length p \<le> MAX_FRAME_LEN" using a by (simp add: frame_codec_def)
  ultimately show "ws_unframe msg = Inr p" by (simp add: ws_unframe_frame)
qed

section \<open>Encoding and decoding\<close>

datatype io_error_kind = InvalidData | ConnectionReset | Other

text \<open>\<open>bincode_opts\<close>: the allocation limit is the frame limit.\<close>

definition bincode_limit :: nat where "bincode_limit = MAX_FRAME_LEN"

definition encode :: "world \<Rightarrow> server_message \<Rightarrow> io_error_kind + byte list" where
  "encode w m = (case w_bincode_ser w bincode_limit m of None \<Rightarrow> Inl InvalidData | Some bs \<Rightarrow> Inr bs)"

definition decode :: "world \<Rightarrow> byte list \<Rightarrow> io_error_kind + client_message" where
  "decode w payload =
     (case w_bincode_de w bincode_limit payload of
        None \<Rightarrow> Inl InvalidData
      | Some m \<Rightarrow> Inr (normalise_message m))"

lemma encode_length: "bincode_limit_ok w \<Longrightarrow> encode w m = Inr bs \<Longrightarrow> length bs \<le> MAX_FRAME_LEN"
  by (auto simp: encode_def bincode_limit_ok_def bincode_limit_def split: option.splits)

end
