(* ===== verification/Connection.thy ===== *)
theory Connection
  imports Frame Dispatch
begin

text \<open>
  The two connection loops of \<open>server/mod.rs\<close>, \<open>handle_connection\<close> (TCP) and
  \<open>handle_ws_connection\<close> (WebSocket).  One round of \<open>select!\<close> is a step function of an
  event: what the socket, the outbound queue or the timer delivered.  A round either goes on
  or breaks out of the loop with the loop's result; leaving the loop leaves the room.
  Times are nanoseconds.
\<close>

section \<open>State\<close>

definition CONNECTION_IDLE_TIMEOUT :: nat where "CONNECTION_IDLE_TIMEOUT = 120 * 1000000000"
definition RATE_LIMIT_WINDOW :: nat where "RATE_LIMIT_WINDOW = 1000000000"
definition RATE_LIMIT_MAX :: u32 where "RATE_LIMIT_MAX = 200"

record connection =
  c_tx :: conn_id
  c_session :: "session option"
  idle_deadline :: nat
  rate_count :: u32
  rate_window_start :: nat

definition connection_new :: "conn_id \<Rightarrow> nat \<Rightarrow> connection" where
  "connection_new i now =
     \<lparr>c_tx = i, c_session = None, idle_deadline = now + CONNECTION_IDLE_TIMEOUT,
      rate_count = 0, rate_window_start = now\<rparr>"

text \<open>One round: \<open>Break e\<close> leaves the loop with \<open>result\<close> \<open>Ok(())\<close> (\<open>None\<close>) or an error.\<close>

datatype round_result =
    Continue connection server
  | Break "io_error_kind option" connection server

section \<open>An incoming payload\<close>

text \<open>
  The rate limiter: a new window if the last one is a second old (\<open>duration_since\<close> of an
  earlier instant is zero, as subtraction on \<open>nat\<close>), then count the frame.
\<close>

definition count_frame :: "nat \<Rightarrow> connection \<Rightarrow> connection" where
  "count_frame now c =
     (let c1 = (if RATE_LIMIT_WINDOW \<le> now - rate_window_start c
                then c\<lparr>rate_count := 0, rate_window_start := now\<rparr> else c)
      in c1\<lparr>rate_count := rate_count c1 + 1\<rparr>)"

text \<open>\<open>for s in to_send { let _ = tx.try_send(s); }\<close>\<close>

fun send_replies :: "world \<Rightarrow> conn_id \<Rightarrow> server_message list \<Rightarrow> send_log \<Rightarrow> send_log" where
  "send_replies w i [] lg = lg"
| "send_replies w i (m # ms) lg = send_replies w i ms (snd (try_send w i m lg))"

definition reply :: "world \<Rightarrow> conn_id \<Rightarrow> server_message list \<Rightarrow> server \<Rightarrow> server" where
  "reply w i ms s = s\<lparr>sends := send_replies w i ms (sends s)\<rparr>"

text \<open>
  From the payload on the two loops are the same: rate limit, decode, dispatch, reply.
  \<open>later\<close> is the second reading of the clock, after decoding.
\<close>

definition handle_payload :: "world \<Rightarrow> nat \<Rightarrow> nat \<Rightarrow> byte list \<Rightarrow> connection \<Rightarrow> server \<Rightarrow> round_result" where
  "handle_payload w now later payload c0 s =
     (let c = count_frame now c0
      in if RATE_LIMIT_MAX < rate_count c then Break None c s
         else case decode w payload of
           Inl _ \<Rightarrow> Continue c (reply w (c_tx c) [Error ''invalid message''] s)
         | Inr msg \<Rightarrow>
             let c1 = c\<lparr>idle_deadline := later + CONNECTION_IDLE_TIMEOUT\<rparr>;
                 (to_send, session, s1) = dispatch w (c_session c1) (c_tx c1) msg s
             in Continue (c1\<lparr>c_session := session\<rparr>) (reply w (c_tx c1) to_send s1))"

section \<open>TCP\<close>

text \<open>
  \<open>TcpOut m e\<close>: the queue delivered \<open>m\<close>; \<open>e\<close> is the error of sending its frame, if any.
\<close>

datatype tcp_event =
    TcpFrame "byte list"
  | TcpFrameError
  | TcpEnd
  | TcpOut server_message "io_error_kind option"
  | TcpIdle

fun tcp_round :: "world \<Rightarrow> nat \<Rightarrow> nat \<Rightarrow> tcp_event \<Rightarrow> connection \<Rightarrow> server \<Rightarrow> round_result" where
  "tcp_round w now later (TcpFrame payload) c s = handle_payload w now later payload c s"
| "tcp_round w now later TcpFrameError c s = Break (Some InvalidData) c s"
| "tcp_round w now later TcpEnd c s = Break None c s"
| "tcp_round w now later (TcpOut m send_error) c s =
     (case encode w m of
        Inl e \<Rightarrow> Break (Some e) c s
      | Inr payload \<Rightarrow> (case send_error of Some e \<Rightarrow> Break (Some e) c s | None \<Rightarrow> Continue c s))"
| "tcp_round w now later TcpIdle c s = Break None c s"

section \<open>WebSocket\<close>

datatype ws_event =
    WsBinary "byte list"
  | WsControl
  | WsText
  | WsError
  | WsEnd
  | WsOut server_message bool
  | WsIdle

fun ws_round :: "world \<Rightarrow> nat \<Rightarrow> nat \<Rightarrow> ws_event \<Rightarrow> connection \<Rightarrow> server \<Rightarrow> round_result" where
  "ws_round w now later (WsBinary msg) c s =
     (case ws_unframe msg of
        Inl e \<Rightarrow> Continue c (reply w (c_tx c) [Error e] s)
      | Inr payload \<Rightarrow> handle_payload w now later payload c s)"
| "ws_round w now later WsControl c s = Continue c s"
| "ws_round w now later WsText c s = Continue c s"
| "ws_round w now later WsError c s = Break (Some InvalidData) c s"
| "ws_round w now later WsEnd c s = Break None c s"
| "ws_round w now later (WsOut m sent) c s =
     (case encode w m of
        Inl e \<Rightarrow> Break (Some e) c s
      | Inr payload \<Rightarrow> if sent then Continue c s else Break (Some ConnectionReset) c s)"
| "ws_round w now later WsIdle c s = Break None c s"

text \<open>The bytes a round writes to the WebSocket.\<close>

fun ws_written :: "world \<Rightarrow> ws_event \<Rightarrow> byte list option" where
  "ws_written w (WsOut m sent) =
     (case encode w m of Inl _ \<Rightarrow> None | Inr payload \<Rightarrow> if sent then Some (ws_frame payload) else None)"
| "ws_written w _ = None"

section \<open>After the loop\<close>

definition close_connection :: "world \<Rightarrow> connection \<Rightarrow> server \<Rightarrow> connection \<times> server" where
  "close_connection w c s =
     (case c_session c of
        None \<Rightarrow> (c, s)
      | Some ss \<Rightarrow>
          (c\<lparr>c_session := None\<rparr>, leave_room w (s_app_key ss) (s_room_code ss) (s_peer_id ss) s))"

end
