(* ===== verification/Wire_Guarantees.thy ===== *)
theory Wire_Guarantees
  imports Connection
begin

text \<open>
  What holds of the bytes and of the connection loops: framing, the room codes that get
  through decoding, the rate limit and the idle timeout.
\<close>

section \<open>Frames\<close>

text \<open>C37: A binary WebSocket message is accepted exactly if it is the frame of a payload of at most
  65536 bytes, and then yields that payload: framing and unframing are inverse.\<close>

theorem ws_frame_exact:
  "ws_unframe msg = Inr p \<longleftrightarrow> length p \<le> 65536 \<and> msg = ws_frame p"
proof
  assume "ws_unframe msg = Inr p"
  from ws_unframe_InrD [OF this] show "length p \<le> 65536 \<and> msg = ws_frame p"
    by (simp add: MAX_FRAME_LEN_def)
next
  assume "length p \<le> 65536 \<and> msg = ws_frame p"
  then show "ws_unframe msg = Inr p" using ws_unframe_frame [of p] by (simp add: MAX_FRAME_LEN_def)
qed

text \<open>Every frame the server writes to a WebSocket is one its own unframing accepts, with the
  encoded message as payload: no frame exceeds the limit it enforces on clients.\<close>

theorem written_frames_accepted:
  assumes "bincode_limit_ok w" and "ws_written w ev = Some bs"
  shows "\<exists>m payload. ev = WsOut m True \<and> encode w m = Inr payload \<and> ws_unframe bs = Inr payload"
proof -
  from assms(2) obtain m sent where ev: "ev = WsOut m sent" by (cases ev) simp_all
  with assms(2) obtain payload where "encode w m = Inr payload" "sent" "bs = ws_frame payload"
    by (auto split: sum.splits if_splits)
  moreover from this(1) have "length payload \<le> MAX_FRAME_LEN" by (rule encode_length [OF assms(1)])
  ultimately show ?thesis using ev ws_unframe_frame by blast
qed

definition tiny_world :: world where
  "tiny_world = quiet_world\<lparr>w_bincode_ser := (\<lambda>limit _. if 1 \<le> limit then Some [42] else None),
     w_bincode_de := (\<lambda>_ p. if p = [1] then Some Ping else None)\<rparr>"

theorem written_frames_accepted_witness:
  "ws_unframe [1, 0, 0, 0, 42] = Inr [42]"
proof -
  have e: "encode tiny_world Pong = Inr [42]"
    by (simp add: encode_def tiny_world_def bincode_limit_def MAX_FRAME_LEN_def)
  have "ws_frame [42] = [1, 0, 0, 0, 42]"
    by code_simp
  with e have "ws_written tiny_world (WsOut Pong True) = Some [1, 0, 0, 0, 42]" by simp
  moreover have "bincode_limit_ok tiny_world" by (auto simp: bincode_limit_ok_def tiny_world_def)
  ultimately obtain m payload where "WsOut Pong True = WsOut m True" "encode tiny_world m = Inr payload"
    "ws_unframe [1, 0, 0, 0, 42] = Inr payload"
    using written_frames_accepted by blast
  with e show ?thesis by simp
qed

text \<open>The room code of every decoded Hello consists of ASCII letters and digits only and is a
  fixed point of the normalisation, so decoding what the server shows changes nothing.\<close>

theorem decoded_room_code_normal:
  assumes "decode w payload = Inr (Hello a rc h d t pw)"
  shows "(\<forall>c \<in> set (code_str rc). is_ascii_alphanumeric c) \<and> deserialize_room_code (code_str rc) = rc"
proof -
  from assms obtain m where "normalise_message m = Hello a rc h d t pw"
    by (auto simp: decode_def split: option.splits)
  then obtain rc0 where "rc = deserialize_room_code (code_str rc0)" by (cases m) auto
  then show ?thesis by (auto simp: deserialize_room_code_def)
qed

theorem decoded_room_code_normal_witness:
  "deserialize_room_code ''ab12'' = RoomCode ''ab12''"
proof -
  let ?w = "quiet_world\<lparr>w_bincode_de := (\<lambda>_ _. Some (Hello ''pong'' (RoomCode '' ab-12'') ''h'' None None None))\<rparr>"
  have "deserialize_room_code '' ab-12'' = RoomCode ''ab12''"
    unfolding deserialize_room_code_def filter_trim by code_simp
  then have "decode ?w [] = Inr (Hello ''pong'' (RoomCode ''ab12'') ''h'' None None None)" by (simp add: decode_def)
  from decoded_room_code_normal [OF this] show ?thesis by simp
qed

section \<open>Rate limit and idle timeout\<close>

text \<open>Rounds of a TCP connection, one after the other, until one breaks.\<close>

fun tcp_rounds :: "(world \<times> nat \<times> nat \<times> tcp_event) list \<Rightarrow> connection \<Rightarrow> server \<Rightarrow> round_result" where
  "tcp_rounds [] c s = Continue c s"
| "tcp_rounds ((w, now, later, ev) # es) c s =
     (case tcp_round w now later ev c s of
        Continue c' s' \<Rightarrow> tcp_rounds es c' s'
      | Break e c' s' \<Rightarrow> Break e c' s')"

fun ws_rounds :: "(world \<times> nat \<times> nat \<times> ws_event) list \<Rightarrow> connection \<Rightarrow> server \<Rightarrow> round_result" where
  "ws_rounds [] c s = Continue c s"
| "ws_rounds ((w, now, later, ev) # es) c s =
     (case ws_round w now later ev c s of
        Continue c' s' \<Rightarrow> ws_rounds es c' s'
      | Break e c' s' \<Rightarrow> Break e c' s')"

definition is_frame :: "world \<times> nat \<times> nat \<times> tcp_event \<Rightarrow> bool" where
  "is_frame = (\<lambda>(_, _, _, ev). case ev of TcpFrame _ \<Rightarrow> True | _ \<Rightarrow> False)"

lemma handle_payload_Continue:
  assumes "handle_payload w now later p c s = Continue c' s'"
  shows "rate_count c' = rate_count (count_frame now c)" "rate_count c' \<le> RATE_LIMIT_MAX"
    "rate_window_start c' = rate_window_start (count_frame now c)"
    "idle_deadline c' = (case decode w p of Inr _ \<Rightarrow> later + CONNECTION_IDLE_TIMEOUT | Inl _ \<Rightarrow> idle_deadline c)"
  using assms
  by (auto simp: handle_payload_def Let_def count_frame_def not_less split: if_splits sum.splits prod.splits)

lemma tcp_round_other:
  "\<not> is_frame (w, now, later, ev) \<Longrightarrow> tcp_round w now later ev c s = Continue c' s' \<Longrightarrow> c' = c"
  by (cases ev) (auto simp: is_frame_def split: sum.splits option.splits)

text \<open>Within one window a frame adds one to the count.\<close>

lemma count_frame_within:
  "now - rate_window_start c < RATE_LIMIT_WINDOW \<Longrightarrow>
   rate_count (count_frame now c) = rate_count c + 1 \<and> rate_window_start (count_frame now c) = rate_window_start c"
  by (simp add: count_frame_def Let_def)

lemma count_step: "n \<le> RATE_LIMIT_MAX \<Longrightarrow> unat (n + 1) = unat n + 1"
  by (simp add: RATE_LIMIT_MAX_def word_le_nat_alt unat_word_ariths)

text \<open>C26: A connection never has more than 200 frames taken within one window of the rate limiter:
  if it is still open after some rounds, the frames among them fit into what the window had
  left.\<close>

theorem rate_limit_enforced:
  assumes "rate_count c \<le> RATE_LIMIT_MAX"
    and "\<forall>(w, now, later, ev) \<in> set es. now - rate_window_start c < RATE_LIMIT_WINDOW"
    and "tcp_rounds es c s = Continue c' s'"
  shows "unat (rate_count c') = unat (rate_count c) + length (filter is_frame es) \<and>
    length (filter is_frame es) + unat (rate_count c) \<le> 200"
  using assms
proof (induction es arbitrary: c s)
  case Nil
  then show ?case by (simp add: RATE_LIMIT_MAX_def word_le_nat_alt)
next
  case (Cons e es)
  obtain w now later ev where e: "e = (w, now, later, ev)" by (metis surj_pair)
  with Cons.prems(3) obtain c1 s1 where one: "tcp_round w now later ev c s = Continue c1 s1"
    and rest: "tcp_rounds es c1 s1 = Continue c' s'" by (auto split: round_result.splits)
  show ?case
  proof (cases "is_frame e")
    case True
    then obtain p where "ev = TcpFrame p" by (auto simp: e is_frame_def split: tcp_event.splits)
    with one have h: "handle_payload w now later p c s = Continue c1 s1" by simp
    have "now - rate_window_start c < RATE_LIMIT_WINDOW" using Cons.prems(2) by (auto simp: e)
    note cf = count_frame_within [OF this]
    have c1: "rate_count c1 = rate_count c + 1" "rate_window_start c1 = rate_window_start c" "rate_count c1 \<le> RATE_LIMIT_MAX"
      using handle_payload_Continue [OF h] cf by simp_all
    with Cons.IH [OF c1(3) _ rest] Cons.prems(2) count_step [OF Cons.prems(1)] True show ?thesis by simp
  next
    case False
    with tcp_round_other [OF _ one] have "c1 = c" by (simp add: e)
    with Cons.IH [OF Cons.prems(1) _ rest [unfolded this]] Cons.prems(2) False show ?thesis by simp
  qed
qed

theorem rate_limit_enforced_witness:
  "\<exists>c' :: connection. unat (rate_count c') = 2"
proof -
  let ?es = "[(tiny_world, 5, 5, TcpFrame [1]), (tiny_world, 6, 6, TcpFrame [0])]"
  obtain c' s' where "tcp_rounds ?es (connection_new 7 0) (server_init quiet_world) = Continue c' s'"
    by (simp add: handle_payload_def connection_new_def count_frame_def RATE_LIMIT_WINDOW_def RATE_LIMIT_MAX_def
        decode_def tiny_world_def dispatch_defs Let_def)
  from rate_limit_enforced [OF _ _ this] have "unat (rate_count c') = 2"
    by (simp add: connection_new_def RATE_LIMIT_WINDOW_def is_frame_def)
  then show ?thesis ..
qed

text \<open>C39: WebSocket messages that are not well-formed frames are neither counted nor limited: any
  number of them, at any times, leaves the connection open with its counters as they were,
  each answered by an error.\<close>

theorem malformed_ws_frames_unlimited:
  assumes "\<forall>(w, now, later, ev) \<in> set es. \<exists>msg e. ev = WsBinary msg \<and> ws_unframe msg = Inl e"
  shows "\<exists>s'. ws_rounds es c s = Continue c s' \<and> length (sends s') = length (sends s) + length es"
  using assms
proof (induction es arbitrary: s)
  case (Cons x es)
  obtain w now later ev where x: "x = (w, now, later, ev)" by (metis surj_pair)
  with Cons.prems obtain msg e where ev: "ev = WsBinary msg" "ws_unframe msg = Inl e" by auto
  let ?s = "reply w (c_tx c) [Error e] s"
  have one: "ws_round w now later ev c s = Continue c ?s" using ev by simp
  have len: "length (sends ?s) = Suc (length (sends s))" by (simp add: reply_def try_send_def Let_def)
  from Cons.IH [of ?s] Cons.prems obtain s' where
    "ws_rounds es c ?s = Continue c s'" "length (sends s') = length (sends ?s) + length es" by auto
  with one len x show ?case by simp
qed simp

theorem malformed_ws_frames_unlimited_witness:
  "\<exists>s'. ws_rounds (replicate 1000 (quiet_world, 5, 5, WsBinary [])) (connection_new 7 0) (server_init quiet_world) =
     Continue (connection_new 7 0) s'"
proof -
  have "\<forall>(w, now, later, ev) \<in> set (replicate 1000 (quiet_world, 5 :: nat, 5 :: nat, WsBinary [])).
      \<exists>msg e. ev = WsBinary msg \<and> ws_unframe msg = Inl e"
    by (auto simp: ws_unframe_def)
  from malformed_ws_frames_unlimited [OF this] show ?thesis by blast
qed

text \<open>Only a message that decodes puts the idle deadline off: frames that do not decode, outgoing
  messages and everything else leave it as it is, and at the deadline the loop ends.\<close>

theorem idle_deadline_moves_on_messages_only:
  "(\<forall>c' s'. tcp_round w now later ev c s = Continue c' s' \<longrightarrow>
     idle_deadline c' = (if \<exists>p m. ev = TcpFrame p \<and> decode w p = Inr m
                         then later + 120 * 10 ^ 9 else idle_deadline c)) \<and>
   tcp_round w now later TcpIdle c s = Break None c s"
proof (intro conjI allI impI)
  fix c' s' assume one: "tcp_round w now later ev c s = Continue c' s'"
  show "idle_deadline c' = (if \<exists>p m. ev = TcpFrame p \<and> decode w p = Inr m
      then later + 120 * 10 ^ 9 else idle_deadline c)"
  proof (cases "is_frame (w, now, later, ev)")
    case True
    then obtain p where ev: "ev = TcpFrame p" by (auto simp: is_frame_def split: tcp_event.splits)
    with one have "handle_payload w now later p c s = Continue c' s'" by simp
    from handle_payload_Continue(4) [OF this] ev show ?thesis
      by (auto simp: CONNECTION_IDLE_TIMEOUT_def split: sum.splits)
  next
    case False
    with tcp_round_other [OF False one] show ?thesis by (auto simp: is_frame_def)
  qed
qed simp

theorem idle_deadline_moves_on_messages_only_witness:
  "\<exists>c' :: connection. idle_deadline c' = 120 * 10 ^ 9 \<and> rate_count c' = 1"
proof -
  obtain c' s' where run: "tcp_round tiny_world 5 5 (TcpFrame [0]) (connection_new 7 0) (server_init quiet_world) = Continue c' s'"
    and rc: "rate_count c' = 1"
    by (simp add: handle_payload_def connection_new_def count_frame_def RATE_LIMIT_WINDOW_def RATE_LIMIT_MAX_def
        decode_def tiny_world_def Let_def)
  have "\<nexists>m. decode tiny_world [0] = Inr m" by (simp add: decode_def tiny_world_def)
  with idle_deadline_moves_on_messages_only [of tiny_world 5 5 "TcpFrame [0]" "connection_new 7 0" "server_init quiet_world"] run
  have "idle_deadline c' = 120 * 10 ^ 9"
    by (simp add: connection_new_def CONNECTION_IDLE_TIMEOUT_def)
  with rc show ?thesis by blast
qed

end
