(* ===== verification/Membership.thy ===== *)
theory Membership
  imports Store
begin

text \<open>
  Rooms and sessions together.  \<open>backed f sess s\<close> says that every member of a registered room
  is the peer that some connection's session names, on that connection's channel;
  \<open>dispatch\<close> keeps it for every message.
\<close>

definition session_for :: "(string \<Rightarrow> string) \<Rightarrow> session option \<Rightarrow> string \<Rightarrow> string \<Rightarrow> peer_id \<Rightarrow> bool" where
  "session_for f so a k pid \<longleftrightarrow>
     (\<exists>ss. so = Some ss \<and> s_app_key ss = a \<and> f (code_str (s_room_code ss)) = k \<and> s_peer_id ss = pid)"

definition backed :: "(string \<Rightarrow> string) \<Rightarrow> (conn_id \<Rightarrow> session option) \<Rightarrow> server \<Rightarrow> bool" where
  "backed f sess s \<longleftrightarrow>
     (\<forall>a k ad pid i. registered s a k ad \<longrightarrow> member_info (heap s ad) pid = Some i \<longrightarrow>
        session_for f (sess (tx i)) a k pid)"

lemma backedD:
  "backed f sess s \<Longrightarrow> registered s a k ad \<Longrightarrow> member_info (heap s ad) pid = Some i \<Longrightarrow>
   session_for f (sess (tx i)) a k pid"
  by (simp add: backed_def)

lemma session_for_unique:
  "session_for f so a k pid \<Longrightarrow> session_for f so a' k' pid' \<Longrightarrow> a' = a \<and> k' = k \<and> pid' = pid"
  by (auto simp: session_for_def)

text \<open>
  \<open>fewer s s'\<close>: the registered rooms of \<open>s'\<close> have no member that those of \<open>s\<close> did not have, in
  the same room, under the same id and with the same record.
\<close>

definition member_at :: "server \<Rightarrow> string \<Rightarrow> string \<Rightarrow> peer_id \<Rightarrow> client_info \<Rightarrow> bool" where
  "member_at s a k pid i \<longleftrightarrow> (\<exists>ad. registered s a k ad \<and> member_info (heap s ad) pid = Some i)"

definition fewer :: "server \<Rightarrow> server \<Rightarrow> bool" where
  "fewer s s' \<longleftrightarrow> (\<forall>a k pid i. member_at s' a k pid i \<longrightarrow> member_at s a k pid i)"

lemma backed_member_at:
  "backed f sess s \<longleftrightarrow> (\<forall>a k pid i. member_at s a k pid i \<longrightarrow> session_for f (sess (tx i)) a k pid)"
  unfolding backed_def member_at_def by blast

lemma fewer_refl [simp]: "fewer s s"
  by (simp add: fewer_def)

lemma fewer_trans: "fewer s s1 \<Longrightarrow> fewer s1 s' \<Longrightarrow> fewer s s'"
  by (simp add: fewer_def)

lemma backed_fewer: "backed f sess s \<Longrightarrow> fewer s s' \<Longrightarrow> backed f sess s'"
  unfolding backed_member_at fewer_def by blast

lemma fewer_store_step:
  assumes "store_step s s'"
  shows "fewer s s'"
  using store_stepD(1,3) [OF assms] unfolding fewer_def member_at_def keeps_def map_le_def
  by (metis domI)

lemma fewer_created:
  assumes cr: "created w st a s res s'"
  shows "fewer s s'"
proof (cases res)
  case None
  with cr show ?thesis by (simp add: created_def fewer_def member_at_def registered_def)
next
  case (Some x)
  obtain c ad where res: "res = Some (c, ad)" using Some by (cases x) auto
  have h: "heap s' = (heap s)(ad := Room_new w a c st)" using cr res by (auto simp: created_def)
  show ?thesis unfolding fewer_def member_at_def
  proof (intro allI impI, elim exE conjE)
    fix b k pid i d
    assume r: "registered s' b k d" and m: "member_info (heap s' d) pid = Some i"
    have "d \<noteq> ad" using m h by auto
    with r created_registered [OF cr [unfolded res]] have "registered s b k d" by blast
    with m h \<open>d \<noteq> ad\<close> show "\<exists>d. registered s b k d \<and> member_info (heap s d) pid = Some i" by auto
  qed
qed

lemmas backed_store_step = backed_fewer [OF _ fewer_store_step]

section \<open>Leaving\<close>

lemma lookup_registered:
  "w_case_fold w = f \<Longrightarrow> lookup_room w s a c = Some ad \<longleftrightarrow> registered s a (f (code_str c)) ad"
  by (auto simp: lookup_room_def get_room_def code_key_def registered_def bind_eq_Some_conv)

text \<open>After a connection has left its room no registered room has a member on its channel.\<close>

lemma backed_leave:
  assumes b: "backed f sess s" and wf: "server_wf f s" and f: "w_case_fold w = f" and ss: "sess i = Some ss"
  shows "backed f (sess(i := None)) (leave_room w (s_app_key ss) (s_room_code ss) (s_peer_id ss) s)"
    (is "backed f _ ?s'")
  unfolding backed_def
proof (intro allI impI)
  fix a k ad pid info
  assume reg': "registered ?s' a k ad" and m': "member_info (heap ?s' ad) pid = Some info"
  note st = store_step_leave [OF wf, of w "s_app_key ss" "s_room_code ss" "s_peer_id ss"]
  have reg: "registered s a k ad" by (rule store_stepD(3) [OF st reg'])
  have m: "member_info (heap s ad) pid = Some info"
    using store_stepD(1) [OF st, of ad] m' by (auto simp: keeps_def map_le_def dom_def)
  have sf: "session_for f (sess (tx info)) a k pid" by (rule backedD [OF b reg m])
  have "tx info \<noteq> i"
  proof
    assume "tx info = i"
    with sf ss have key: "s_app_key ss = a" "f (code_str (s_room_code ss)) = k" "s_peer_id ss = pid"
      by (auto simp: session_for_def)
    with reg have look: "lookup_room w s (s_app_key ss) (s_room_code ss) = Some ad"
      using lookup_registered [OF f] by simp
    obtain r lg where run: "leave_in_room w (s_peer_id ss) (heap s ad, sends s) = (r, lg)" by fastforce
    have "heap ?s' ad = r"
      using look run by (simp add: leave_room_def with_room_def Let_def drop_if_empty_def split: option.splits)
    moreover have "keeps (remove_member (s_peer_id ss) (heap s ad)) r"
      using leave_in_room_gone [OF server_wfD(1) [OF wf] run] by blast
    ultimately have "member_info (heap ?s' ad) \<subseteq>\<^sub>m (member_info (heap s ad))(pid := None)"
      using key by (simp add: keeps_def member_info_remove_member)
    with m' show False by (auto simp: map_le_def dom_def)
  qed
  with sf show "session_for f ((sess(i := None)) (tx info)) a k pid" by simp
qed

lemma backed_leave_old:
  assumes "backed f sess s" and "server_wf f s" and "w_case_fold w = f"
  shows "backed f (sess(i := None)) (leave_old w (sess i) s)" "store_step s (leave_old w (sess i) s)"
proof -
  show "backed f (sess(i := None)) (leave_old w (sess i) s)"
  proof (cases "sess i")
    case None
    then have "sess(i := None) = sess" by auto
    with None assms(1) show ?thesis by (simp add: leave_old_def)
  next
    case (Some ss)
    with backed_leave [OF assms Some] show ?thesis by (simp add: leave_old_def)
  qed
  show "store_step s (leave_old w (sess i) s)"
    using store_step_refl [OF assms(2)] store_step_leave [OF assms(2)]
    by (simp add: leave_old_def split: option.splits)
qed

section \<open>Hello\<close>

lemma hello_admit_step:
  assumes wf: "server_wf f s" and run: "hello_admit w a rc h d t pw s = (res, s')"
  shows "store_step s s'"
proof -
  obtain b c where ir: "is_registered_app w a (cache s) = (b, c)" by fastforce
  then have "cache_plain c" using cache_plain_registered server_wfD(4) [OF wf] by blast
  then have "store_step s (s\<lparr>cache := c\<rparr>)" by (rule store_step_cache [OF wf])
  moreover have "s' = s \<or> s' = s\<lparr>cache := c\<rparr>"
    using run ir by (auto simp: hello_admit_def Let_def split: sum.splits if_splits)
  ultimately show ?thesis using store_step_refl [OF wf] by auto
qed

text \<open>Making sure the pool exists adds an empty pool at most.\<close>

definition ensure_pool :: "string \<Rightarrow> server \<Rightarrow> server" where
  "ensure_pool a s = (case registry s a of Some _ \<Rightarrow> s | None \<Rightarrow> put_pool a (RoomPool_new a) s)"

lemma ensure_pool_step:
  assumes "server_wf f s"
  shows "store_step s (ensure_pool a s)"
proof (cases "registry s a")
  case (Some p)
  then show ?thesis using store_step_refl [OF assms] by (simp add: ensure_pool_def)
next
  case None
  then show ?thesis
    using store_step_refl [OF assms]
    by (auto simp: ensure_pool_def store_step_def registered_def RoomPool_new_def split: if_splits)
qed

lemma hello_room_ensured:
  assumes "registry (ensure_pool a s) a = Some p"
  shows "hello_room w a rc s =
    (if code_str rc = []
     then let (st, c) = default_room_settings_for_app w a (cache (ensure_pool a s))
          in (case create_room w st [] (p, (ensure_pool a s)\<lparr>cache := c\<rparr>) of
                (Some (code', ad), p', s') \<Rightarrow> (Inr (code', ad), put_pool a p' s')
              | (None, p', s') \<Rightarrow> (Inl ''failed to create room'', put_pool a p' s'))
     else (case get_room w p rc of
             Some ad \<Rightarrow> (Inr (rc, ad), ensure_pool a s)
           | None \<Rightarrow> (Inl ''room not found'', ensure_pool a s)))"
  using assms unfolding hello_room_def ensure_pool_def [symmetric] put_pool_def [symmetric]
  by (simp add: Let_def ensure_pool_def put_pool_def split: option.split)

text \<open>\<open>hello_room\<close> either changes nothing that matters or adds one empty room.\<close>

lemma hello_room_step:
  assumes wf: "server_wf f s" and b: "backed f sess s" and f: "w_case_fold w = f"
    and run: "hello_room w a rc s = (res, s')"
  shows "server_wf f s' \<and> backed f sess s' \<and> fewer s s' \<and> sends s' = sends s \<and>
    (\<forall>c ad. res = Inr (c, ad) \<longrightarrow> registered s' a (f (code_str c)) ad)"
proof -
  let ?s1 = "ensure_pool a s"
  have wf1: "server_wf f ?s1" by (rule store_step_wf [OF wf ensure_pool_step [OF wf]])
  have fw1: "fewer s ?s1" by (rule fewer_store_step [OF ensure_pool_step [OF wf]])
  note b1 = backed_fewer [OF b fw1]
  have l1: "sends ?s1 = sends s" by (simp add: ensure_pool_def split: option.split)
  obtain p where p: "registry ?s1 a = Some p"
    by (cases "registry s a") (auto simp: ensure_pool_def)
  note hr = hello_room_ensured [OF p, of w rc]
  show ?thesis
  proof (cases "code_str rc = []")
    case False
    then show ?thesis
      using run hr wf1 b1 fw1 l1 p f
      by (auto simp: get_room_def code_key_def registered_def split: option.splits)
  next
    case True
    obtain st c where d: "default_room_settings_for_app w a (cache ?s1) = (st, c)" by fastforce
    then have "cache_plain c" using cache_plain_defaults server_wfD(4) [OF wf1] by blast
    then have st2: "store_step ?s1 (?s1\<lparr>cache := c\<rparr>)" (is "store_step _ ?s2") by (rule store_step_cache [OF wf1])
    note wf2 = store_step_wf [OF wf1 st2] and fw2 = fewer_trans [OF fw1 fewer_store_step [OF st2]]
    obtain r p' s3 where cr: "create_room w st [] (p, ?s2) = (r, p', s3)" by (metis surj_pair)
    have "(registry ?s2)(a \<mapsto> p) = registry ?s2" using p by (simp add: fun_upd_idem)
    then have "put_pool a p ?s2 = ?s2" unfolding put_pool_def by (rule ssubst) simp
    moreover have "pool_app_key p = a" using server_wfD(2) [OF wf1 p] by simp
    ultimately have c: "created w st a ?s2 r (put_pool a p' s3)"
      using created_create_room [OF cr, of a] by simp
    have s': "s' = put_pool a p' s3" and res: "res = (case r of Some x \<Rightarrow> Inr x | None \<Rightarrow> Inl ''failed to create room'')"
      using run hr True d cr by (auto split: option.splits)
    have "registered s' a (f (code_str c')) ad" if "res = Inr (c', ad)" for c' ad
    proof -
      have "r = Some (c', ad)" using that res by (auto split: option.splits)
      with c s' created_registered show ?thesis by (metis code_key_def f)
    qed
    moreover have "server_wf f s'" unfolding s' by (rule created_wf [OF wf2 c f])
    moreover have fw: "fewer s s'" unfolding s' by (rule fewer_trans [OF fw2 fewer_created [OF c]])
    moreover note backed_fewer [OF b fw]
    moreover have "sends s' = sends s" using c l1 s' by (simp add: created_def)
    ultimately show ?thesis by blast
  qed
qed

lemma hello_join_step:
  assumes wf: "server_wf f s" and b: "backed f (sess(i := None)) s"
    and reg: "registered s a (f (code_str c)) ad"
    and run: "hello_join w a c ad i h d pw s = (out, so, s')"
  shows "server_wf f s' \<and> backed f (sess(i := so)) s' \<and> log_step (sends s) (sends s') \<and>
    (\<forall>m \<in> set out. no_password m)"
proof -
  obtain res r lg where j: "join_room w c i h d pw (heap s ad, sends s) = (res, (r, lg))" by (metis surj_pair)
  have s': "s' = s\<lparr>heap := (heap s)(ad := r), sends := lg\<rparr>"
    using run j by (auto simp: hello_join_def Let_def split: sum.splits)
  have w: "room_wf (heap s ad)" by (rule server_wfD(1) [OF wf])
  show ?thesis
  proof (cases res)
    case (Inl e)
    from join_room_Inl [OF j [unfolded Inl]] obtain n where
      n: "r = heap s ad\<lparr>next_peer_id := n\<rparr>" "n = next_peer_id (heap s ad) \<or> n \<noteq> 0" and lg: "lg = sends s" by blast
    have "keeps (heap s ad) r"
      using w n by (auto simp: keeps_def room_wf_def members_def client_ids_def pending_ids_def)
    then have "store_step s s'" unfolding s' by (rule store_step_room [OF wf]) (simp add: lg)
    moreover have "so = None" "out = [Error e]" using run j Inl by (auto simp: hello_join_def Let_def)
    ultimately show ?thesis
      using store_step_wf [OF wf] backed_store_step [OF b] store_stepD(6) by auto
  next
    case (Inr x)
    obtain pid joined where x: "res = Inr (pid, joined)" using Inr by (cases x) auto
    note ji = join_room_Inr [OF w j [unfolded x]]
    have out: "out = [joined]" "so = Some \<lparr>s_app_key = a, s_room_code = c, s_peer_id = pid\<rparr>"
      using run j x by (auto simp: hello_join_def Let_def)
    have adm: "room_wf r" "app_key r = app_key (heap s ad)" "code r = code (heap s ad)"
      "member_info r = (member_info (heap s ad))(pid \<mapsto> newcomer (heap s ad) i h d)"
      using ji(1) by (simp_all add: admitted_def)
    have wf': "server_wf f s'"
      using wf adm by (auto simp: server_wf_def s' registered_def)
    have "backed f (sess(i := so)) s'"
      unfolding backed_def
    proof (intro allI impI)
      fix b k d' q info
      assume reg': "registered s' b k d'" and m: "member_info (heap s' d') q = Some info"
      have r1: "registered s b k d'" using reg' by (simp add: s' registered_def)
      show "session_for f ((sess(i := so)) (tx info)) b k q"
      proof (cases "d' = ad \<and> q = pid")
        case True
        with m adm have "info = newcomer (heap s ad) i h d" by (simp add: s')
        moreover have "b = a \<and> k = f (code_str c)" using registered_unique [OF wf reg] r1 True by simp
        ultimately show ?thesis using True out(2) by (simp add: session_for_def newcomer_def)
      next
        case False
        with m adm have "member_info (heap s d') q = Some info" by (auto simp: s' split: if_splits)
        from backedD [OF \<open>backed f (sess(i := None)) s\<close> r1 this]
        have sf: "session_for f ((sess(i := None)) (tx info)) b k q" .
        then have "tx info \<noteq> i" by (auto simp: session_for_def)
        with sf show ?thesis by simp
      qed
    qed
    moreover have "log_step (sends s) (sends s')"
    proof -
      from ji(4) obtain ex where ex: "lg = sends s @ ex" "log_msgs ex \<subseteq> {PeerJoined pid h d}" by blast
      have "no_password m" if "m \<in> log_msgs ex" for m using subsetD [OF ex(2) that] by simp
      with ex(1) show ?thesis by (auto simp: log_step_def s')
    qed
    moreover have "no_password joined" using ji(3) by simp
    ultimately show ?thesis using wf' out by simp
  qed
qed

section \<open>All messages\<close>

lemma list_public_no_password: "no_password (RoomList (list_public_rooms w p s))"
  by (auto simp: no_password_def list_public_rooms_def room_entry_def)

lemma handle_hello_step:
  assumes wf: "server_wf f s" and b: "backed f sess s" and f: "w_case_fold w = f"
    and run: "handle_hello w (sess i) i a rc h d t pw s = (out, so, s')"
  shows "server_wf f s' \<and> backed f (sess(i := so)) s' \<and> log_step (sends s) (sends s') \<and>
    (\<forall>m \<in> set out. no_password m)"
proof -
  let ?s0 = "leave_old w (sess i) s"
  note lo = backed_leave_old [OF b wf f, of i]
  obtain r1 s1 where ad: "hello_admit w a rc h d t pw ?s0 = (r1, s1)" by fastforce
  note wf0 = store_step_wf [OF wf lo(2)]
  note st = store_step_trans [OF lo(2) hello_admit_step [OF wf0 ad]]
  note b1 = backed_store_step [OF lo(1) hello_admit_step [OF wf0 ad]]
  note wf1 = store_step_wf [OF wf st] and l1 = store_stepD(6) [OF st]
  show ?thesis
  proof (cases r1)
    case (Inl e)
    with run ad wf1 b1 l1 show ?thesis by (auto simp: handle_hello_def Let_def)
  next
    case (Inr u)
    obtain r2 s2 where hr: "hello_room w a rc s1 = (r2, s2)" by fastforce
    note h2 = hello_room_step [OF wf1 b1 f hr]
    show ?thesis
    proof (cases r2)
      case (Inl e)
      with run ad hr \<open>r1 = Inr u\<close> h2 l1 show ?thesis by (auto simp: handle_hello_def Let_def)
    next
      case (Inr x)
      obtain c ad' where x: "x = (c, ad')" by fastforce
      with run ad hr \<open>r1 = Inr u\<close> Inr have j: "hello_join w a c ad' i h d pw s2 = (out, so, s')"
        by (simp add: handle_hello_def Let_def)
      from h2 Inr x have "registered s2 a (f (code_str c)) ad'" "server_wf f s2"
        "backed f (sess(i := None)) s2" "sends s2 = sends s1" by auto
      with hello_join_step [OF _ _ _ j] l1 show ?thesis by (metis log_step_trans)
    qed
  qed
qed

text \<open>A message other than Hello adds no member; only \<open>Leave\<close> changes the session.\<close>

lemma dispatch_other:
  assumes wf: "server_wf f s" and run: "dispatch w session i msg s = (out, so, s')"
    and not_hello: "\<And>a rc h d t pw. msg \<noteq> Hello a rc h d t pw"
  shows "store_step s s' \<and> (\<forall>m \<in> set out. no_password m) \<and>
    (so = session \<or> so = None \<and> (\<exists>ss. session = Some ss \<and>
       s' = leave_room w (s_app_key ss) (s_room_code ss) (s_peer_id ss) s))" (is ?goal)
proof -
  have same: "store_step s s" by (rule store_step_refl [OF wf])
  show ?thesis
  proof (cases msg)
    case (Hello a rc h d t pw)
    with not_hello show ?thesis by blast
  next
    case (Move blob)
    with run same move_op.in_session_room_step [OF wf] show ?thesis
      by (cases session) (auto simp: dispatch_defs with_session_def split: prod.splits)
  next
    case (Input blob)
    with run same input_op.in_session_room_step [OF wf] show ?thesis
      by (cases session) (auto simp: dispatch_defs with_session_def split: prod.splits)
  next
    case RequestState
    with run same state_op.in_session_room_step [OF wf] show ?thesis
      by (cases session) (auto simp: dispatch_defs with_session_def split: prod.splits)
  next
    case (RoomControl rc)
    show ?thesis
    proof (cases session)
      case None
      with run RoomControl same show ?thesis by (auto simp: dispatch_defs with_session_def)
    next
      case (Some ss)
      with run RoomControl have hc: "handle_control w ss rc s = (out, so, s')"
        by (simp add: dispatch_defs with_session_def)
      consider "rc = Leave" | st where "rc = CreateRoom st"
        | "in_session_room w ss (control_in_room w (s_peer_id ss) rc) s = (out, s')" "so = session"
        using hc Some by (cases rc) (auto simp: handle_control_def split: prod.splits)
      then show ?thesis
      proof cases
        case 1
        with hc Some store_step_leave [OF wf] show ?thesis by (auto simp: handle_control_def)
      next
        case 2
        with hc Some same show ?thesis by (auto simp: handle_control_def)
      next
        case 3
        with control_op.in_session_room_step [OF wf] show ?thesis by blast
      qed
    qed
  next
    case Ping
    with run same show ?thesis by (auto simp: dispatch_defs)
  next
    case (ListRooms a)
    obtain b c where ir: "is_registered_app w a (cache s) = (b, c)" by fastforce
    then have "cache_plain c" using cache_plain_registered server_wfD(4) [OF wf] by blast
    then have "store_step s (s\<lparr>cache := c\<rparr>)" by (rule store_step_cache [OF wf])
    moreover have "s' = s\<lparr>cache := c\<rparr>" "so = session" "\<forall>m \<in> set out. no_password m"
      using run ListRooms ir list_public_no_password
      by (auto simp: dispatch_defs handle_list_rooms_def Let_def split: if_splits option.splits)
        (auto simp: no_password_def)
    ultimately show ?thesis by simp
  qed
qed

theorem dispatch_step:
  assumes wf: "server_wf f s" and b: "backed f sess s" and f: "w_case_fold w = f"
    and run: "dispatch w (sess i) i msg s = (out, so, s')"
  shows "server_wf f s' \<and> backed f (sess(i := so)) s' \<and> log_step (sends s) (sends s') \<and>
    (\<forall>m \<in> set out. no_password m)"
proof (cases "\<exists>a rc h d t pw. msg = Hello a rc h d t pw")
  case True
  with run handle_hello_step [OF wf b f] show ?thesis by (auto simp: dispatch_defs)
next
  case False
  then have st: "store_step s s'" and out: "\<forall>m \<in> set out. no_password m"
    and so: "so = sess i \<or> so = None \<and> (\<exists>ss. sess i = Some ss \<and>
       s' = leave_room w (s_app_key ss) (s_room_code ss) (s_peer_id ss) s)"
    using dispatch_other [OF wf run] by blast+
  have "backed f (sess(i := so)) s'"
    using so
  proof
    assume "so = sess i"
    with backed_store_step [OF b st] show ?thesis by simp
  next
    assume "so = None \<and> (\<exists>ss. sess i = Some ss \<and>
       s' = leave_room w (s_app_key ss) (s_room_code ss) (s_peer_id ss) s)"
    with backed_leave [OF b wf f] show ?thesis by blast
  qed
  with st out store_step_wf [OF wf st] store_stepD(6) [OF st] show ?thesis by blast
qed

end
