(* ===== verification/System.thy ===== *)
theory System
  imports Connection Membership
begin

text \<open>
  The running server as a step relation: the two accept loops of \<open>run\<close> with the shared
  connection counter and its guard, and the connection tasks, whose rounds interleave in any
  order.  One message is dispatched in one step; the finer interleavings of a Hello with a
  departure are in \<open>Interleaving\<close>.  Every step has its own parameters \<open>w\<close>: any two sends,
  lookups or reads may go differently.
\<close>

section \<open>State\<close>

definition MAX_CONNECTIONS :: nat where "MAX_CONNECTIONS = 110000"

datatype transport = Tcp | Ws

text \<open>A spawned task: a WebSocket handshake under way, or the loop of a connection.\<close>

datatype slot = Handshaking | Serving transport connection

text \<open>
  \<open>conn_count\<close> is the \<open>AtomicUsize\<close>; a listener that has incremented it and not yet acted on
  it holds the previous value.
\<close>

record system =
  srv :: server
  slots :: "conn_id \<rightharpoonup> slot"
  next_conn :: conn_id
  conn_count :: u64
  counted :: "transport \<Rightarrow> u64 option"

definition system_init :: "world \<Rightarrow> system" where
  "system_init w =
     \<lparr>srv = server_init w, slots = Map.empty, next_conn = 0, conn_count = 0, counted = (\<lambda>_. None)\<rparr>"

section \<open>The accept loops\<close>

text \<open>\<open>let prev = conn_count.fetch_add(1, Relaxed);\<close>\<close>

definition fetch_add :: "transport \<Rightarrow> system \<Rightarrow> system" where
  "fetch_add tr y = y\<lparr>counted := (counted y)(tr := Some (conn_count y)), conn_count := conn_count y + 1\<rparr>"

text \<open>\<open>if prev >= MAX_CONNECTIONS { fetch_sub; drop(stream); continue; }\<close>, else spawn with a guard.\<close>

definition new_slot :: "transport \<Rightarrow> conn_id \<Rightarrow> nat \<Rightarrow> slot" where
  "new_slot tr i now = (case tr of Tcp \<Rightarrow> Serving Tcp (connection_new i now) | Ws \<Rightarrow> Handshaking)"

definition admit_or_drop :: "transport \<Rightarrow> u64 \<Rightarrow> nat \<Rightarrow> system \<Rightarrow> system" where
  "admit_or_drop tr prev now y =
     (if MAX_CONNECTIONS \<le> unat prev
      then y\<lparr>counted := (counted y)(tr := None), conn_count := conn_count y - 1\<rparr>
      else y\<lparr>counted := (counted y)(tr := None),
             slots := (slots y)(next_conn y \<mapsto> new_slot tr (next_conn y) now),
             next_conn := Suc (next_conn y)\<rparr>)"

text \<open>The end of a task drops its \<open>ConnectionGuard\<close>.\<close>

definition end_task :: "conn_id \<Rightarrow> system \<Rightarrow> system" where
  "end_task i y = y\<lparr>slots := (slots y)(i := None), conn_count := conn_count y - 1\<rparr>"

section \<open>Steps\<close>

text \<open>What may happen next; the external choices are the arguments.\<close>

datatype event =
    AcceptFailed transport
  | Accept transport
  | Admit transport nat
  | Handshake conn_id "nat option"
  | TcpRound conn_id nat nat tcp_event
  | WsRound conn_id nat nat ws_event

text \<open>Carry a round's outcome back; a loop that was left closes its connection and ends its task.\<close>

definition after_round :: "world \<Rightarrow> conn_id \<Rightarrow> transport \<Rightarrow> round_result \<Rightarrow> system \<Rightarrow> system" where
  "after_round w i tr res y =
     (case res of
        Continue c s \<Rightarrow> y\<lparr>srv := s, slots := (slots y)(i \<mapsto> Serving tr c)\<rparr>
      | Break e c s \<Rightarrow> end_task i (y\<lparr>srv := snd (close_connection w c s)\<rparr>))"

text \<open>
  A WebSocket connection up to its loop: the handshake (of another library) fails, or the loop
  starts with a fresh state.
\<close>

definition ws_start :: "conn_id \<Rightarrow> nat option \<Rightarrow> io_error_kind + connection" where
  [simp]: "ws_start i handshake =
     (case handshake of None \<Rightarrow> Inl InvalidData | Some now \<Rightarrow> Inr (connection_new i now))"

fun happens :: "world \<Rightarrow> event \<Rightarrow> system \<Rightarrow> system option" where
  "happens w (AcceptFailed tr) y = (if counted y tr = None then Some y else None)"
| "happens w (Accept tr) y = (if counted y tr = None then Some (fetch_add tr y) else None)"
| "happens w (Admit tr now) y =
     (case counted y tr of None \<Rightarrow> None | Some prev \<Rightarrow> Some (admit_or_drop tr prev now y))"
| "happens w (Handshake i result) y =
     (if slots y i = Some Handshaking
      then (case ws_start i result of
              Inl e \<Rightarrow> Some (end_task i y)
            | Inr c \<Rightarrow> Some (y\<lparr>slots := (slots y)(i \<mapsto> Serving Ws c)\<rparr>))
      else None)"
| "happens w (TcpRound i now later ev) y =
     (case slots y i of
        Some (Serving Tcp c) \<Rightarrow> Some (after_round w i Tcp (tcp_round w now later ev c (srv y)) y)
      | _ \<Rightarrow> None)"
| "happens w (WsRound i now later ev) y =
     (case slots y i of
        Some (Serving Ws c) \<Rightarrow> Some (after_round w i Ws (ws_round w now later ev c (srv y)) y)
      | _ \<Rightarrow> None)"

text \<open>\<open>f\<close> is the case folding, the one parameter that never changes.\<close>

inductive sys_step :: "(string \<Rightarrow> string) \<Rightarrow> system \<Rightarrow> system \<Rightarrow> bool" where
  stepI: "w_case_fold w = f \<Longrightarrow> happens w ev y = Some y' \<Longrightarrow> sys_step f y y'"

inductive reachable :: "(string \<Rightarrow> string) \<Rightarrow> system \<Rightarrow> bool" where
  start: "reachable f (system_init w)"
| step: "reachable f y \<Longrightarrow> sys_step f y y' \<Longrightarrow> reachable f y'"

inductive_cases sys_stepE: "sys_step f y y'"

section \<open>The invariant of the connections\<close>

definition sess_of :: "system \<Rightarrow> conn_id \<Rightarrow> session option" where
  "sess_of y i = (case slots y i of Some (Serving tr c) \<Rightarrow> c_session c | _ \<Rightarrow> None)"

lemma sess_of_slot:
  "slots y' = (slots y)(i := x) \<Longrightarrow>
   sess_of y' = (sess_of y)(i := (case x of Some (Serving tr c) \<Rightarrow> c_session c | _ \<Rightarrow> None))"
  by (simp add: sess_of_def fun_eq_iff)

definition slots_ok :: "system \<Rightarrow> bool" where
  "slots_ok y \<longleftrightarrow>
     (\<forall>i sl. slots y i = Some sl \<longrightarrow> i < next_conn y) \<and>
     (\<forall>i tr c. slots y i = Some (Serving tr c) \<longrightarrow> c_tx c = i \<and> rate_count c \<le> RATE_LIMIT_MAX)"

definition log_clean :: "server \<Rightarrow> bool" where
  "log_clean s \<longleftrightarrow> (\<forall>m \<in> log_msgs (sends s). no_password m)"

definition sys_inv :: "(string \<Rightarrow> string) \<Rightarrow> system \<Rightarrow> bool" where
  "sys_inv f y \<longleftrightarrow>
     server_wf f (srv y) \<and> backed f (sess_of y) (srv y) \<and> slots_ok y \<and> log_clean (srv y)"

lemma log_clean_step: "log_clean s \<Longrightarrow> log_step (sends s) (sends s') \<Longrightarrow> log_clean s'"
  unfolding log_clean_def by (rule log_step_msgs)

lemma sys_inv_init: "sys_inv f (system_init w)"
proof -
  have "server_wf f (srv (system_init w))" by (simp add: system_init_def server_wf_init)
  then show ?thesis
    by (simp add: sys_inv_def system_init_def backed_def registered_def server_init_def
        slots_ok_def log_clean_def)
qed

text \<open>Replies go to the connection's own queue.\<close>

lemma send_replies_log:
  "\<forall>m \<in> set ms. no_password m \<Longrightarrow> log_step lg (send_replies w i ms lg)"
proof (induction ms arbitrary: lg)
  case (Cons m ms)
  have "log_step lg (snd (try_send w i m lg))" using Cons.prems by (simp add: try_send_def Let_def log_step_def)
  moreover have "log_step (snd (try_send w i m lg)) (send_replies w i (m # ms) lg)" using Cons by simp
  ultimately show ?case by (rule log_step_trans)
qed simp

lemma reply_wf [simp]: "server_wf f (reply w i ms s) = server_wf f s"
  by (simp add: server_wf_def reply_def registered_def)

lemma reply_backed [simp]: "backed f sess (reply w i ms s) = backed f sess s"
  by (simp add: backed_def reply_def registered_def)

text \<open>
  What a round does, whatever the transport: the server stays well-formed, every member stays
  backed by the sessions with the connection's new one, and no password is sent.
\<close>

definition round_ok :: "(string \<Rightarrow> string) \<Rightarrow> (conn_id \<Rightarrow> session option) \<Rightarrow> connection \<Rightarrow> server \<Rightarrow> round_result \<Rightarrow> bool" where
  "round_ok f sess c s res =
     (case res of
        Continue c' s' \<Rightarrow> c_tx c' = c_tx c \<and> rate_count c' \<le> RATE_LIMIT_MAX \<and> server_wf f s' \<and>
          backed f (sess(c_tx c := c_session c')) s' \<and> log_step (sends s) (sends s')
      | Break e c' s' \<Rightarrow> s' = s \<and> c_tx c' = c_tx c \<and> c_session c' = c_session c)"

lemma count_frame_simps [simp]:
  "c_tx (count_frame now c) = c_tx c" "c_session (count_frame now c) = c_session c"
  by (simp_all add: count_frame_def Let_def)

lemma sends_reply [simp]: "sends (reply w i ms s) = send_replies w i ms (sends s)"
  by (simp add: reply_def)

lemma round_ok_quiet:
  assumes "server_wf f s" and "backed f sess s" and "sess (c_tx c) = c_session c"
    and "rate_count c' \<le> RATE_LIMIT_MAX" and "c_tx c' = c_tx c" and "c_session c' = c_session c"
    and "\<forall>m \<in> set ms. no_password m"
  shows "round_ok f sess c s (Continue c' (reply w i ms s))"
  using assms by (simp add: round_ok_def send_replies_log fun_upd_idem)

lemma round_ok_same:
  assumes "server_wf f s" and "backed f sess s" and "sess (c_tx c) = c_session c"
    and "rate_count c \<le> RATE_LIMIT_MAX"
  shows "round_ok f sess c s (Continue c s)"
  using assms by (simp add: round_ok_def fun_upd_idem)

lemma handle_payload_ok:
  assumes wf: "server_wf f s" and b: "backed f sess s" and f: "w_case_fold w = f"
    and sess: "sess (c_tx c) = c_session c"
  shows "round_ok f sess c s (handle_payload w now later p c s)"
proof (cases "RATE_LIMIT_MAX < rate_count (count_frame now c)")
  case True
  then show ?thesis by (simp add: handle_payload_def round_ok_def)
next
  case False
  let ?c = "count_frame now c"
  show ?thesis
  proof (cases "decode w p")
    case (Inl e)
    have "round_ok f sess c s (Continue ?c (reply w (c_tx c) [Error ''invalid message''] s))"
      by (rule round_ok_quiet [OF wf b sess]) (use False in simp_all)
    with Inl False show ?thesis by (simp add: handle_payload_def Let_def)
  next
    case (Inr msg)
    obtain out so s' where d: "dispatch w (sess (c_tx c)) (c_tx c) msg s = (out, so, s')"
      by (metis surj_pair)
    from dispatch_step [OF wf b f d] have
      "server_wf f s'" "backed f (sess(c_tx c := so)) s'" "log_step (sends s) (sends s')"
      "\<forall>m \<in> set out. no_password m" by blast+
    moreover from this(3,4) have "log_step (sends s) (send_replies w (c_tx c) out (sends s'))"
      using send_replies_log log_step_trans by blast
    ultimately show ?thesis
      using Inr False d sess by (simp add: handle_payload_def Let_def round_ok_def)
  qed
qed

lemma tcp_round_ok:
  assumes "server_wf f s" and "backed f sess s" and "w_case_fold w = f"
    and "sess (c_tx c) = c_session c" and "rate_count c \<le> RATE_LIMIT_MAX"
  shows "round_ok f sess c s (tcp_round w now later ev c s)"
proof (cases ev)
  case (TcpFrame p)
  with handle_payload_ok [OF assms(1-4)] show ?thesis by simp
next
  case (TcpOut m e)
  with round_ok_same [OF assms(1,2,4,5)] show ?thesis
    by (auto simp: round_ok_def split: sum.split option.split)
qed (simp_all add: round_ok_def)

lemma ws_round_ok:
  assumes "server_wf f s" and "backed f sess s" and "w_case_fold w = f"
    and "sess (c_tx c) = c_session c" and "rate_count c \<le> RATE_LIMIT_MAX"
  shows "round_ok f sess c s (ws_round w now later ev c s)"
proof (cases ev)
  case (WsBinary p)
  show ?thesis
  proof (cases "ws_unframe p")
    case (Inl e)
    have "round_ok f sess c s (Continue c (reply w (c_tx c) [Error e] s))"
      by (rule round_ok_quiet [OF assms(1,2,4)]) (simp_all add: assms(5))
    with Inl WsBinary show ?thesis by simp
  next
    case (Inr q)
    with WsBinary handle_payload_ok [OF assms(1-4)] show ?thesis by simp
  qed
next
  case (WsOut m e)
  with round_ok_same [OF assms(1,2,4,5)] show ?thesis
    by (auto simp: round_ok_def split: sum.split)
qed (use round_ok_same [OF assms(1,2,4,5)] in \<open>simp_all add: round_ok_def\<close>)

lemma after_round_inv:
  assumes inv: "sys_inv f y" and sl: "slots y i = Some (Serving tr c)" and f: "w_case_fold w = f"
    and ok: "round_ok f (sess_of y) c (srv y) res"
  shows "sys_inv f (after_round w i tr res y)"
proof -
  have tx: "c_tx c = i" and so: "sess_of y i = c_session c" and lt: "i < next_conn y"
    using inv sl by (auto simp: sys_inv_def slots_ok_def sess_of_def)
  show ?thesis
  proof (cases res)
    case (Continue c' s')
    let ?y = "after_round w i tr res y"
    have "sess_of ?y = (sess_of y)(i := c_session c')"
      by (auto simp: after_round_def Continue sess_of_def fun_eq_iff)
    moreover have "slots_ok ?y"
      using inv ok Continue tx lt by (auto simp: sys_inv_def slots_ok_def after_round_def round_ok_def)
    ultimately show ?thesis
      using inv ok Continue tx log_clean_step
      by (auto simp: sys_inv_def round_ok_def after_round_def)
  next
    case (Break e c' s')
    let ?y = "after_round w i tr res y" and ?s = "snd (close_connection w c' (srv y))"
    have cs: "c_session c' = c_session c" "s' = srv y" using ok Break by (auto simp: round_ok_def)
    have y: "srv ?y = ?s" "slots ?y = (slots y)(i := None)" "next_conn ?y = next_conn y"
      using cs by (simp_all add: after_round_def Break end_task_def)
    have sess: "sess_of ?y = (sess_of y)(i := None)"
      by (auto simp: sess_of_def y fun_eq_iff)
    have wf: "server_wf f (srv y)" and b: "backed f (sess_of y) (srv y)" and lc: "log_clean (srv y)"
      using inv by (auto simp: sys_inv_def)
    have cl: "?s = leave_old w (sess_of y i) (srv y)"
      using so cs by (simp add: close_connection_def leave_old_def split: option.split)
    note lo = backed_leave_old [OF b wf f, of i]
    have "slots_ok ?y" using inv by (auto simp: sys_inv_def slots_ok_def y)
    moreover have "log_clean ?s" unfolding cl by (rule log_clean_step [OF lc store_stepD(6) [OF lo(2)]])
    ultimately show ?thesis
      using lo store_step_wf [OF wf lo(2)] unfolding sys_inv_def sess y(1) cl by blast
  qed
qed

text \<open>Steps that leave the server and the sessions alone.\<close>

lemma sys_inv_slots:
  assumes "sys_inv f y" and "srv y' = srv y" and "sess_of y' = sess_of y" and "slots_ok y'"
  shows "sys_inv f y'"
  using assms by (simp add: sys_inv_def)

lemma connection_new_simps [simp]:
  "c_tx (connection_new i now) = i" "c_session (connection_new i now) = None"
  "rate_count (connection_new i now) = 0"
  by (simp_all add: connection_new_def)

lemma happens_inv:
  assumes inv: "sys_inv f y" and f: "w_case_fold w = f" and hp: "happens w ev y = Some y'"
  shows "sys_inv f y'"
proof -
  have wf: "server_wf f (srv y)" and b: "backed f (sess_of y) (srv y)" and ok: "slots_ok y"
    using inv by (auto simp: sys_inv_def)
  have fresh: "slots y (next_conn y) = None" using ok by (auto simp: slots_ok_def)
  have at: "sess_of y (c_tx c) = c_session c" "rate_count c \<le> RATE_LIMIT_MAX"
    if "slots y i = Some (Serving tr c)" for i tr c
    using that ok by (auto simp: slots_ok_def sess_of_def)
  show ?thesis
  proof (cases ev)
    case (AcceptFailed tr)
    with hp inv show ?thesis by (simp split: if_splits)
  next
    case (Accept tr)
    with hp have "y' = fetch_add tr y" by (auto split: if_splits)
    then show ?thesis by (intro sys_inv_slots [OF inv])
        (use ok in \<open>auto simp: fetch_add_def sess_of_def slots_ok_def\<close>)
  next
    case (Admit tr now)
    with hp obtain prev where "y' = admit_or_drop tr prev now y" by (auto split: option.splits)
    then show ?thesis
      using fresh ok
      by (intro sys_inv_slots [OF inv])
        (auto simp: admit_or_drop_def new_slot_def sess_of_def slots_ok_def fun_eq_iff less_Suc_eq
          split: transport.splits)
  next
    case (Handshake i res)
    with hp have hs: "slots y i = Some Handshaking" by (auto split: if_splits)
    with Handshake hp consider "y' = end_task i y"
      | now where "y' = y\<lparr>slots := (slots y)(i \<mapsto> Serving Ws (connection_new i now))\<rparr>"
      by (auto split: option.splits)
    then have "srv y' = srv y \<and> slots_ok y' \<and> (\<exists>x. slots y' = (slots y)(i := x) \<and>
        (case x of Some (Serving tr c) \<Rightarrow> c_session c | _ \<Rightarrow> None) = None)"
      using ok hs by cases (auto simp: end_task_def slots_ok_def)
    moreover have "sess_of y i = None" using hs by (simp add: sess_of_def)
    ultimately show ?thesis by (intro sys_inv_slots [OF inv]) (auto simp: sess_of_slot fun_upd_idem)
  next
    case (TcpRound i now later ev')
    with hp obtain c where sl: "slots y i = Some (Serving Tcp c)"
      and y': "y' = after_round w i Tcp (tcp_round w now later ev' c (srv y)) y"
      by (auto split: option.splits slot.splits transport.splits)
    show ?thesis unfolding y'
      by (rule after_round_inv [OF inv sl f tcp_round_ok [OF wf b f at [OF sl]]])
  next
    case (WsRound i now later ev')
    with hp obtain c where sl: "slots y i = Some (Serving Ws c)"
      and y': "y' = after_round w i Ws (ws_round w now later ev' c (srv y)) y"
      by (auto split: option.splits slot.splits transport.splits)
    show ?thesis unfolding y'
      by (rule after_round_inv [OF inv sl f ws_round_ok [OF wf b f at [OF sl]]])
  qed
qed

lemma reachable_inv: "reachable f y \<Longrightarrow> sys_inv f y"
  by (induction rule: reachable.induct) (auto intro: sys_inv_init elim!: sys_stepE dest: happens_inv)

section \<open>The connection counter\<close>

text \<open>
  The counter is the number of tasks plus the increments not acted upon yet; the tasks and the
  increments that will be admitted never exceed the limit.
\<close>

definition holds :: "system \<Rightarrow> transport \<Rightarrow> nat" where
  "holds y tr = (if counted y tr = None then 0 else 1)"

definition will_admit :: "system \<Rightarrow> transport \<Rightarrow> nat" where
  "will_admit y tr =
     (case counted y tr of None \<Rightarrow> 0 | Some prev \<Rightarrow> if unat prev < MAX_CONNECTIONS then 1 else 0)"

definition live :: "system \<Rightarrow> nat" where
  "live y = card (dom (slots y))"

definition count_inv :: "system \<Rightarrow> bool" where
  "count_inv y \<longleftrightarrow> finite (dom (slots y)) \<and>
     unat (conn_count y) = live y + holds y Tcp + holds y Ws \<and>
     live y + will_admit y Tcp + will_admit y Ws \<le> MAX_CONNECTIONS"

lemma count_inv_init: "count_inv (system_init w)"
  by (simp add: count_inv_def system_init_def live_def holds_def will_admit_def)

lemma will_admit_holds: "will_admit y tr \<le> holds y tr"
  by (simp add: will_admit_def holds_def split: option.split)

lemma holds_le: "holds y tr \<le> 1"
  by (simp add: holds_def)

lemma unat_incr: "unat (n :: u64) < 18446744073709551615 \<Longrightarrow> unat (n + 1) = unat n + 1"
  by (simp add: unat_word_ariths)

lemma unat_decr: "0 < unat (n :: u64) \<Longrightarrow> unat (n - 1) = unat n - 1"
  by (metis One_nat_def less_not_refl unat_0 unat_minus_one)

lemma count_inv_end_task:
  assumes "count_inv y" and "slots y i \<noteq> None"
  shows "count_inv (end_task i y)"
proof -
  have "i \<in> dom (slots y)" using assms(2) by auto
  moreover have "finite (dom (slots y))" using assms(1) by (simp add: count_inv_def)
  ultimately have l: "0 < live y" "live (end_task i y) = live y - 1"
    by (auto simp: live_def end_task_def card_gt_0_iff)
  with assms(1) have "unat (conn_count y - 1) = unat (conn_count y) - 1"
    by (intro unat_decr) (simp add: count_inv_def)
  moreover have same: "holds (end_task i y) tr = holds y tr" "will_admit (end_task i y) tr = will_admit y tr"
    "slots (end_task i y) = (slots y)(i := None)" "conn_count (end_task i y) = conn_count y - 1" for tr
    by (simp_all add: holds_def will_admit_def end_task_def)
  ultimately show ?thesis
    using assms(1) l same unfolding count_inv_def by (auto intro: le_trans [OF diff_le_self])
qed

lemma count_inv_cong:
  assumes "count_inv y" and "dom (slots y') = dom (slots y)" and "conn_count y' = conn_count y"
    and "counted y' = counted y"
  shows "count_inv y'"
  using assms by (simp add: count_inv_def live_def holds_def will_admit_def)

lemma count_inv_accept:
  assumes inv: "count_inv y" and free: "counted y tr = None"
  shows "count_inv (fetch_add tr y)"
proof -
  note le = will_admit_holds [of y Tcp] will_admit_holds [of y Ws] holds_le [of y Tcp] holds_le [of y Ws]
  have c: "unat (conn_count y) = live y + holds y Tcp + holds y Ws"
    "live y + will_admit y Tcp + will_admit y Ws \<le> MAX_CONNECTIONS" "finite (dom (slots y))"
    using inv by (simp_all add: count_inv_def)
  then have "unat (conn_count y + 1) = unat (conn_count y) + 1"
    using le by (intro unat_incr) (simp add: MAX_CONNECTIONS_def)
  with c le free show ?thesis
    by (cases tr) (auto simp: count_inv_def fetch_add_def live_def holds_def will_admit_def)
qed

lemma count_inv_admit:
  assumes inv: "count_inv y" and prev: "counted y tr = Some prev" and fresh: "slots y (next_conn y) = None"
  shows "count_inv (admit_or_drop tr prev now y)"
proof (cases "MAX_CONNECTIONS \<le> unat prev")
  case True
  have "0 < unat (conn_count y)" using inv prev by (cases tr) (simp_all add: count_inv_def holds_def)
  then have "unat (conn_count y - 1) = unat (conn_count y) - 1" by (rule unat_decr)
  with inv prev True show ?thesis
    by (cases tr) (simp_all add: count_inv_def admit_or_drop_def live_def holds_def will_admit_def)
next
  case False
  have "next_conn y \<notin> dom (slots y)" using fresh by auto
  with inv prev False show ?thesis
    by (cases tr) (simp_all add: count_inv_def admit_or_drop_def live_def holds_def will_admit_def)
qed

lemma after_round_count:
  assumes inv: "count_inv y" and sl: "slots y i = Some sl"
  shows "count_inv (after_round w i tr res y)"
proof (cases res)
  case (Continue c s)
  then show ?thesis
    by (intro count_inv_cong [OF inv]) (use sl in \<open>auto simp: after_round_def\<close>)
next
  case (Break e c s)
  have "count_inv (y\<lparr>srv := snd (close_connection w c s)\<rparr>)" by (rule count_inv_cong [OF inv]) simp_all
  with Break sl show ?thesis by (auto simp: after_round_def intro: count_inv_end_task)
qed

lemma happens_count:
  assumes inv: "count_inv y" and ok: "slots_ok y" and hp: "happens w ev y = Some y'"
  shows "count_inv y'"
proof (cases ev)
  case (AcceptFailed tr)
  with hp inv show ?thesis by (simp split: if_splits)
next
  case (Accept tr)
  with hp count_inv_accept [OF inv] show ?thesis by (auto split: if_splits)
next
  case (Admit tr now)
  have "slots y (next_conn y) = None" using ok by (auto simp: slots_ok_def)
  with Admit hp count_inv_admit [OF inv] show ?thesis by (auto split: option.splits)
next
  case (Handshake i res)
  with hp have hs: "slots y i = Some Handshaking" by (auto split: if_splits)
  with Handshake hp count_inv_end_task [OF inv, of i] show ?thesis
    by (auto split: option.splits if_splits intro!: count_inv_cong [OF inv])
next
  case (TcpRound i now later ev')
  with hp after_round_count [OF inv] show ?thesis
    by (auto split: option.splits slot.splits transport.splits)
next
  case (WsRound i now later ev')
  with hp after_round_count [OF inv] show ?thesis
    by (auto split: option.splits slot.splits transport.splits)
qed

lemma reachable_count: "reachable f y \<Longrightarrow> count_inv y"
proof (induction rule: reachable.induct)
  case (start f w)
  show ?case by (rule count_inv_init)
next
  case (step f y y')
  have "slots_ok y" using reachable_inv [OF step.hyps(1)] by (simp add: sys_inv_def)
  with step show ?case by (auto elim!: sys_stepE dest: happens_count)
qed

end
