(* ===== verification/Abstraction.thy ===== *)
theory Abstraction
  imports System
begin

text \<open>
  The abstract specification of membership: a place (app, room key, peer id) is occupied by at
  most one connection, and a step either frees places, or takes a connection out of every
  place and puts it into one that was free.  The running server refines this specification:
  \<open>abs_members\<close> maps every step of the server to a step of it.
\<close>

type_synonym place = "string \<times> string \<times> peer_id"

definition abs_members :: "server \<Rightarrow> place \<rightharpoonup> conn_id" where
  "abs_members s = (\<lambda>(a, k, pid).
     case registry s a of
       None \<Rightarrow> None
     | Some p \<Rightarrow> (case rooms p k of
         None \<Rightarrow> None
       | Some ad \<Rightarrow> map_option tx (member_info (heap s ad) pid)))"

inductive spec_step :: "(place \<rightharpoonup> conn_id) \<Rightarrow> (place \<rightharpoonup> conn_id) \<Rightarrow> bool" where
  lose: "A' \<subseteq>\<^sub>m A \<Longrightarrow> spec_step A A'"
| enter: "A0 \<subseteq>\<^sub>m A \<Longrightarrow> i \<notin> ran A0 \<Longrightarrow> A0 x = None \<Longrightarrow> spec_step A (A0(x \<mapsto> i))"

text \<open>The specification keeps every connection in at most one place.\<close>

lemma spec_step_inj:
  assumes "spec_step A A'" and "inj_on A (dom A)"
  shows "inj_on A' (dom A')"
  using assms(1)
proof (cases rule: spec_step.cases)
  case lose
  then show ?thesis using assms(2) unfolding inj_on_def map_le_def by (metis domIff)
next
  case (enter A0 i x)
  have "inj_on A0 (dom A0)" using assms(2) enter(2) unfolding inj_on_def map_le_def by (metis domIff)
  moreover have "A0 y \<noteq> Some i" for y using enter(3) by (metis ranI)
  ultimately show ?thesis using enter(1,4) by (auto simp: inj_on_def dom_def)
qed

section \<open>The refinement\<close>

lemma abs_members_Some:
  "abs_members s (a, k, pid) = Some i \<longleftrightarrow> (\<exists>info. member_at s a k pid info \<and> tx info = i)"
  by (auto simp: abs_members_def member_at_def registered_def split: option.splits)

lemma abs_fewer: "fewer s s' \<Longrightarrow> abs_members s' \<subseteq>\<^sub>m abs_members s"
proof -
  assume "fewer s s'"
  then have "abs_members s' x = Some i \<Longrightarrow> abs_members s x = Some i" for x i
    unfolding fewer_def by (cases x) (metis abs_members_Some)
  then show ?thesis by (auto simp: map_le_def)
qed

lemma abs_reply [simp]: "abs_members (reply w i ms s) = abs_members s"
  by (rule ext) (simp add: abs_members_def reply_def split: prod.split option.split)

text \<open>A connection without a session is nowhere.\<close>

lemma backed_not_in_ran:
  assumes "backed f sess s" and "sess i = None"
  shows "i \<notin> ran (abs_members s)"
proof
  assume "i \<in> ran (abs_members s)"
  then obtain x where "abs_members s x = Some i" by (auto simp: ran_def)
  moreover obtain a k pid where "x = (a, k, pid)" by (metis surj_pair)
  ultimately obtain info where "member_at s a k pid info" "tx info = i" by (auto simp: abs_members_Some)
  moreover from this(1) assms(1) have "session_for f (sess (tx info)) a k pid" unfolding backed_member_at by blast
  ultimately show False using assms(2) by (simp add: session_for_def)
qed

lemma hello_join_enters:
  assumes wf: "server_wf f s" and reg: "registered s a (f (code_str c)) ad"
    and run: "hello_join w a c ad i h d pw s = (out, so, s')"
  shows "fewer s s' \<or> (\<exists>x. abs_members s x = None \<and> abs_members s' = (abs_members s)(x \<mapsto> i))"
proof -
  obtain res r lg where j: "join_room w c i h d pw (heap s ad, sends s) = (res, (r, lg))" by (metis surj_pair)
  have s': "s' = s\<lparr>heap := (heap s)(ad := r), sends := lg\<rparr>"
    using run j by (auto simp: hello_join_def Let_def split: sum.splits)
  have w: "room_wf (heap s ad)" by (rule server_wfD(1) [OF wf])
  show ?thesis
  proof (cases res)
    case (Inl e)
    from join_room_Inl [OF j [unfolded Inl]] obtain n where "r = heap s ad\<lparr>next_peer_id := n\<rparr>" by blast
    then have "fewer s s'" by (auto simp: fewer_def member_at_def registered_def s' split: if_splits)
    then show ?thesis ..
  next
    case (Inr x)
    obtain pid joined where x: "res = Inr (pid, joined)" using Inr by (cases x) auto
    from join_room_Inr(1) [OF w j [unfolded x]]
    have mi: "member_info r = (member_info (heap s ad))(pid \<mapsto> newcomer (heap s ad) i h d)"
      and new: "member_info (heap s ad) pid = None"
      by (auto simp: admitted_def dom_member_info [symmetric])
    from reg obtain p where p: "registry s a = Some p" "rooms p (f (code_str c)) = Some ad"
      by (auto simp: registered_def)
    let ?x = "(a, f (code_str c), pid)"
    have "abs_members s' y = ((abs_members s)(?x \<mapsto> i)) y" for y
    proof -
      obtain b k q where y: "y = (b, k, q)" by (metis surj_pair)
      show ?thesis
      proof (cases "registered s b k ad")
        case True
        with registered_unique [OF wf reg] have "b = a" "k = f (code_str c)" by blast+
        with p mi show ?thesis by (simp add: y abs_members_def s' newcomer_def)
      next
        case False
        then have "\<not> (b = a \<and> k = f (code_str c))" using reg by blast
        with False show ?thesis
          by (auto simp: y abs_members_def s' registered_def split: option.splits)
      qed
    qed
    moreover have "abs_members s ?x = None" using p new by (simp add: abs_members_def)
    ultimately show ?thesis by blast
  qed
qed

lemma handle_hello_enters:
  assumes wf: "server_wf f s" and b: "backed f sess s" and f: "w_case_fold w = f"
    and run: "handle_hello w (sess i) i a rc h d t pw s = (out, so, s')"
  shows "spec_step (abs_members s) (abs_members s')"
proof -
  let ?s0 = "leave_old w (sess i) s"
  note lo = backed_leave_old [OF b wf f, of i]
  obtain r1 s1 where ad: "hello_admit w a rc h d t pw ?s0 = (r1, s1)" by fastforce
  note wf0 = store_step_wf [OF wf lo(2)]
  note st1 = hello_admit_step [OF wf0 ad]
  note b1 = backed_store_step [OF lo(1) st1] and wf1 = store_step_wf [OF wf0 st1]
  have fw1: "fewer s s1" by (rule fewer_store_step [OF store_step_trans [OF lo(2) st1]])
  show ?thesis
  proof (cases r1)
    case (Inl e)
    with run ad fw1 show ?thesis by (auto simp: handle_hello_def Let_def intro: lose abs_fewer)
  next
    case (Inr u)
    obtain r2 s2 where hr: "hello_room w a rc s1 = (r2, s2)" by fastforce
    note h2 = hello_room_step [OF wf1 b1 f hr]
    then have fw2: "fewer s s2" using fw1 fewer_trans by blast
    show ?thesis
    proof (cases r2)
      case (Inl e)
      with run ad hr \<open>r1 = Inr u\<close> fw2 show ?thesis
        by (auto simp: handle_hello_def Let_def intro: lose abs_fewer)
    next
      case (Inr x)
      obtain c ad' where x: "x = (c, ad')" by fastforce
      with run ad hr \<open>r1 = Inr u\<close> Inr have j: "hello_join w a c ad' i h d pw s2 = (out, so, s')"
        by (simp add: handle_hello_def Let_def)
      have wf2: "server_wf f s2" and reg: "registered s2 a (f (code_str c)) ad'"
        and b2: "backed f (sess(i := None)) s2" using h2 Inr x by auto
      have out_i: "i \<notin> ran (abs_members s2)" by (rule backed_not_in_ran [OF b2]) simp
      from hello_join_enters [OF wf2 reg j] show ?thesis
      proof
        assume "fewer s2 s'"
        with fw2 show ?thesis by (blast intro: lose abs_fewer fewer_trans)
      next
        assume "\<exists>x. abs_members s2 x = None \<and> abs_members s' = (abs_members s2)(x \<mapsto> i)"
        with abs_fewer [OF fw2] out_i show ?thesis by (auto intro: enter)
      qed
    qed
  qed
qed

lemma dispatch_spec:
  assumes wf: "server_wf f s" and b: "backed f sess s" and f: "w_case_fold w = f"
    and run: "dispatch w (sess i) i msg s = (out, so, s')"
  shows "spec_step (abs_members s) (abs_members s')"
proof (cases "\<exists>a rc h d t pw. msg = Hello a rc h d t pw")
  case True
  with run handle_hello_enters [OF wf b f] show ?thesis by (auto simp: dispatch_defs)
next
  case False
  then have "store_step s s'" using dispatch_other [OF wf run] by blast
  then show ?thesis by (blast intro: lose abs_fewer fewer_store_step)
qed

lemma spec_step_refl [simp]: "spec_step A A"
  by (rule lose) simp

text \<open>The server a round goes on with, before a loop that was left closes its connection.\<close>

fun round_server :: "round_result \<Rightarrow> server" where
  "round_server (Continue c s) = s"
| "round_server (Break e c s) = s"

lemma handle_payload_spec:
  assumes "server_wf f s" and "backed f sess s" and "w_case_fold w = f" and "sess (c_tx c) = c_session c"
  shows "spec_step (abs_members s) (abs_members (round_server (handle_payload w now later p c s)))"
proof (cases "decode w p")
  case (Inl e)
  then show ?thesis by (simp add: handle_payload_def Let_def)
next
  case (Inr msg)
  obtain out so s' where d: "dispatch w (sess (c_tx c)) (c_tx c) msg s = (out, so, s')" by (metis surj_pair)
  with dispatch_spec [OF assms(1-3) d] Inr assms(4) show ?thesis by (simp add: handle_payload_def Let_def)
qed

lemma tcp_round_spec:
  assumes "server_wf f s" and "backed f sess s" and "w_case_fold w = f" and "sess (c_tx c) = c_session c"
  shows "spec_step (abs_members s) (abs_members (round_server (tcp_round w now later ev c s)))"
  by (cases ev) (use handle_payload_spec [OF assms] in \<open>auto split: sum.split option.split\<close>)

lemma ws_round_spec:
  assumes "server_wf f s" and "backed f sess s" and "w_case_fold w = f" and "sess (c_tx c) = c_session c"
  shows "spec_step (abs_members s) (abs_members (round_server (ws_round w now later ev c s)))"
  by (cases ev) (use handle_payload_spec [OF assms] in \<open>auto split: sum.split\<close>)

lemma after_round_spec:
  assumes inv: "sys_inv f y" and f: "w_case_fold w = f"
    and ok: "round_ok f (sess_of y) c (srv y) res"
    and st: "spec_step (abs_members (srv y)) (abs_members (round_server res))"
  shows "spec_step (abs_members (srv y)) (abs_members (srv (after_round w i tr res y)))"
proof (cases res)
  case (Continue c' s')
  with st show ?thesis by (simp add: after_round_def)
next
  case (Break e c' s')
  with ok have "s' = srv y" by (simp add: round_ok_def)
  moreover have "server_wf f (srv y)" using inv by (simp add: sys_inv_def)
  ultimately have "store_step (srv y) (snd (close_connection w c' s'))"
    by (simp add: close_connection_def store_step_leave store_step_refl split: option.split)
  then have "abs_members (snd (close_connection w c' s')) \<subseteq>\<^sub>m abs_members (srv y)"
    by (rule abs_fewer [OF fewer_store_step])
  with Break show ?thesis by (simp add: after_round_def end_task_def lose)
qed

lemma happens_spec:
  assumes inv: "sys_inv f y" and f: "w_case_fold w = f" and hp: "happens w ev y = Some y'"
  shows "spec_step (abs_members (srv y)) (abs_members (srv y'))"
proof -
  have wf: "server_wf f (srv y)" and b: "backed f (sess_of y) (srv y)" and ok: "slots_ok y"
    using inv by (auto simp: sys_inv_def)
  have at: "sess_of y (c_tx c) = c_session c" "rate_count c \<le> RATE_LIMIT_MAX"
    if "slots y i = Some (Serving tr c)" for i tr c
    using that ok by (auto simp: slots_ok_def sess_of_def)
  show ?thesis
  proof (cases ev)
    case (TcpRound i now later ev')
    with hp obtain c where sl: "slots y i = Some (Serving Tcp c)"
      and y': "y' = after_round w i Tcp (tcp_round w now later ev' c (srv y)) y"
      by (auto split: option.splits slot.splits transport.splits)
    show ?thesis unfolding y'
      by (rule after_round_spec [OF inv f tcp_round_ok [OF wf b f at [OF sl]] tcp_round_spec [OF wf b f at(1) [OF sl]]])
  next
    case (WsRound i now later ev')
    with hp obtain c where sl: "slots y i = Some (Serving Ws c)"
      and y': "y' = after_round w i Ws (ws_round w now later ev' c (srv y)) y"
      by (auto split: option.splits slot.splits transport.splits)
    show ?thesis unfolding y'
      by (rule after_round_spec [OF inv f ws_round_ok [OF wf b f at [OF sl]] ws_round_spec [OF wf b f at(1) [OF sl]]])
  qed (use hp in \<open>auto simp: fetch_add_def admit_or_drop_def end_task_def split: option.splits if_splits\<close>)
qed

text \<open>What the specification guarantees, transferred to the server.\<close>

lemma reachable_inj: "reachable f y \<Longrightarrow> inj_on (abs_members (srv y)) (dom (abs_members (srv y)))"
proof (induction rule: reachable.induct)
  case (start f w)
  then show ?case by (simp add: abs_members_def system_init_def server_init_def inj_on_def)
next
  case (step f y y')
  from step.hyps(2) have "spec_step (abs_members (srv y)) (abs_members (srv y'))"
    using happens_spec [OF reachable_inv [OF step.hyps(1)]] by (auto elim: sys_stepE)
  from spec_step_inj [OF this step.IH] show ?case .
qed

end
