(* ===== verification/Game_State.thy ===== *)
theory Game_State
  imports Membership Hosting
begin

text \<open>
  The authoritative game state blob of a room: \<open>state_kept s s'\<close> says that no allocated room has
  another blob in \<open>s'\<close> than in \<open>s\<close>.  Every operation keeps all of them, except an accepted
  move, which changes the one of its session's room.
\<close>

definition state_kept :: "server \<Rightarrow> server \<Rightarrow> bool" where
  "state_kept s s' \<longleftrightarrow> next_addr s \<le> next_addr s' \<and>
     (\<forall>ad < next_addr s. state (heap s' ad) = state (heap s ad))"

lemma state_kept_refl [simp]: "state_kept s s"
  by (simp add: state_kept_def)

lemma state_kept_trans: "state_kept s s1 \<Longrightarrow> state_kept s1 s' \<Longrightarrow> state_kept s s'"
  by (auto simp: state_kept_def)

lemma state_kept_same: "heap s' = heap s \<Longrightarrow> next_addr s' = next_addr s \<Longrightarrow> state_kept s s'"
  by (simp add: state_kept_def)

lemma state_kept_room:
  "state r = state (heap s ad) \<Longrightarrow> state_kept s (s\<lparr>heap := (heap s)(ad := r), sends := lg\<rparr>)"
  by (simp add: state_kept_def)

lemma state_kept_drop_if_empty: "state_kept s (drop_if_empty w a c s)"
  by (rule state_kept_same) (simp_all add: drop_if_empty_def split: option.split)

lemma state_kept_leave:
  assumes "server_wf f s"
  shows "state_kept s (leave_room w a c pid s)"
proof (cases "lookup_room w s a c")
  case None
  then show ?thesis by (simp add: leave_room_def)
next
  case (Some ad)
  obtain r lg where run: "leave_in_room w pid (heap s ad, sends s) = (r, lg)" by fastforce
  have "state r = state (heap s ad)" by (rule leave_in_room_state [OF server_wfD(1) [OF assms] run])
  then have "state_kept s (s\<lparr>heap := (heap s)(ad := r), sends := lg\<rparr>)" by (rule state_kept_room)
  with Some run state_kept_trans [OF _ state_kept_drop_if_empty] show ?thesis
    by (auto simp: leave_room_def with_room_def Let_def)
qed

lemma state_kept_leave_old: "server_wf f s \<Longrightarrow> state_kept s (leave_old w so s)"
  by (simp add: leave_old_def state_kept_leave split: option.split)

lemma state_kept_hello_admit: "hello_admit w a rc h d t pw s = (res, s') \<Longrightarrow> state_kept s s'"
  by (rule state_kept_same) (auto simp: hello_admit_def Let_def split: sum.splits if_splits prod.splits)

lemma state_kept_created: "created w st a s res s' \<Longrightarrow> state_kept s s'"
  by (auto simp: created_def state_kept_def split: option.splits)

lemma state_kept_hello_room:
  assumes wf: "server_wf f s" and run: "hello_room w a rc s = (res, s')"
  shows "state_kept s s'"
proof -
  let ?s1 = "ensure_pool a s"
  have k1: "state_kept s ?s1" by (rule state_kept_same) (simp_all add: ensure_pool_def split: option.split)
  have wf1: "server_wf f ?s1" by (rule store_step_wf [OF wf ensure_pool_step [OF wf]])
  obtain p where p: "registry ?s1 a = Some p"
    by (cases "registry s a") (auto simp: ensure_pool_def)
  show ?thesis
  proof (cases "code_str rc = []")
    case False
    with run p have "s' = ?s1"
      unfolding hello_room_def ensure_pool_def [symmetric] put_pool_def [symmetric]
      by (auto simp: Let_def ensure_pool_def put_pool_def split: option.splits)
    with k1 show ?thesis by simp
  next
    case True
    obtain st c where d: "default_room_settings_for_app w a (cache ?s1) = (st, c)" by fastforce
    obtain r p' s3 where cr: "create_room w st [] (p, ?s1\<lparr>cache := c\<rparr>) = (r, p', s3)" by (metis surj_pair)
    have "pool_app_key p = a" using server_wfD(2) [OF wf1 p] by simp
    from state_kept_created [OF created_create_room [OF cr this]]
    have "state_kept ?s1 s3" by (simp add: state_kept_def)
    moreover have "heap s' = heap s3 \<and> next_addr s' = next_addr s3"
      using run True p d cr
      unfolding hello_room_def
      by (auto simp: Let_def ensure_pool_def put_pool_def split: option.splits prod.splits)
    ultimately show ?thesis using k1 state_kept_trans state_kept_same by metis
  qed
qed

lemma state_kept_hello_join:
  assumes wf: "server_wf f s" and run: "hello_join w a c ad i h d pw s = (out, so, s')"
  shows "state_kept s s'"
proof -
  obtain res r lg where j: "join_room w c i h d pw (heap s ad, sends s) = (res, (r, lg))" by (metis surj_pair)
  have s': "s' = s\<lparr>heap := (heap s)(ad := r), sends := lg\<rparr>"
    using run j by (auto simp: hello_join_def Let_def split: sum.splits)
  have "state r = state (heap s ad)"
  proof (cases res)
    case (Inl e)
    from join_room_Inl [OF j [unfolded Inl]] show ?thesis by auto
  next
    case (Inr x)
    obtain pid joined where "res = Inr (pid, joined)" using Inr by (cases x) auto
    from join_room_Inr(1) [OF server_wfD(1) [OF wf] j [unfolded this]] show ?thesis by (simp add: admitted_def)
  qed
  then show ?thesis unfolding s' by (rule state_kept_room)
qed

lemma state_kept_hello:
  assumes wf: "server_wf f s" and b: "backed f sess s" and f: "w_case_fold w = f"
    and run: "handle_hello w (sess i) i a rc h d t pw s = (out, so, s')"
  shows "state_kept s s'"
proof -
  note lo = backed_leave_old [OF b wf f, of i]
  have k0: "state_kept s (leave_old w (sess i) s)" by (rule state_kept_leave_old [OF wf])
  obtain r1 s1 where ad: "hello_admit w a rc h d t pw (leave_old w (sess i) s) = (r1, s1)" by fastforce
  note wf0 = store_step_wf [OF wf lo(2)]
  note wf1 = store_step_wf [OF wf0 hello_admit_step [OF wf0 ad]]
  note b1 = backed_store_step [OF lo(1) hello_admit_step [OF wf0 ad]]
  note k1 = state_kept_trans [OF k0 state_kept_hello_admit [OF ad]]
  show ?thesis
  proof (cases r1)
    case (Inl e)
    with run ad k1 show ?thesis by (auto simp: handle_hello_def Let_def)
  next
    case (Inr u)
    obtain r2 s2 where hr: "hello_room w a rc s1 = (r2, s2)" by fastforce
    note k2 = state_kept_trans [OF k1 state_kept_hello_room [OF wf1 hr]]
    have wf2: "server_wf f s2" using hello_room_step [OF wf1 b1 f hr] by blast
    show ?thesis
    proof (cases r2)
      case (Inl e)
      with run ad hr \<open>r1 = Inr u\<close> k2 show ?thesis by (auto simp: handle_hello_def Let_def)
    next
      case (Inr x)
      with run ad hr \<open>r1 = Inr u\<close> obtain c ad' where "hello_join w a c ad' i h d pw s2 = (out, so, s')"
        by (cases x) (simp add: handle_hello_def Let_def)
      from state_kept_trans [OF k2 state_kept_hello_join [OF wf2 this]] show ?thesis .
    qed
  qed
qed

text \<open>An operation under the mutex of the session's room that keeps the blob.\<close>

lemma state_kept_in_session_room:
  assumes run: "in_session_room w ss act s = (out, s')"
    and keep: "\<And>r lg r' lg'. room_wf r \<Longrightarrow> act (r, lg) = (out, (r', lg')) \<Longrightarrow> state r' = state r"
    and wf: "server_wf f s"
  shows "state_kept s s'"
proof (cases "lookup_room w s (s_app_key ss) (s_room_code ss)")
  case None
  with run show ?thesis by (simp add: in_session_room_def)
next
  case (Some ad)
  obtain r lg where act: "act (heap s ad, sends s) = (out, (r, lg))"
    and s': "s' = s\<lparr>heap := (heap s)(ad := r), sends := lg\<rparr>"
    using run Some by (auto simp: in_session_room_def split: prod.splits)
  show ?thesis unfolding s' by (rule state_kept_room [OF keep [OF server_wfD(1) [OF wf] act]])
qed

text \<open>What a move through a session does.\<close>

lemma move_in_session_room:
  assumes wf: "server_wf f s" and run: "in_session_room w ss (move_in_room w (s_peer_id ss) blob) s = (out, s')"
    and ch: "state (heap s' ad) \<noteq> state (heap s ad)"
  shows "lookup_room w s (s_app_key ss) (s_room_code ss) = Some ad \<and> out = [MoveAccepted] \<and>
    host_peer_id (heap s ad) = s_peer_id ss \<and> state (heap s' ad) = blob"
proof (cases "lookup_room w s (s_app_key ss) (s_room_code ss)")
  case None
  with run ch show ?thesis by (simp add: in_session_room_def)
next
  case (Some d)
  obtain r lg where act: "move_in_room w (s_peer_id ss) blob (heap s d, sends s) = (out, (r, lg))"
    and s': "s' = s\<lparr>heap := (heap s)(d := r), sends := lg\<rparr>"
    using run Some by (auto simp: in_session_room_def split: prod.splits)
  with ch have d: "d = ad" "state r \<noteq> state (heap s ad)" by (auto split: if_splits)
  with move_in_room_cases [OF act] have acc: "out = [MoveAccepted]" "host_peer_id (heap s d) = s_peer_id ss"
    "broadcast_state_update_and_prune w (heap s d\<lparr>state := blob\<rparr>, sends s) = (r, lg)" by auto
  have "room_wf (heap s d\<lparr>state := blob\<rparr>)" using server_wfD(1) [OF wf] by simp
  from settled_state(1) [OF broadcast_state_update_and_prune_settled [OF this acc(3)]]
  show ?thesis using Some acc d(1) by (simp add: s')
qed

end
