(* ===== verification/Demo_Run.thy ===== *)
theory Demo_Run
  imports System Scenario
begin

text \<open>
  A concrete run of the server: a TCP client connects and says Hello for the app \<open>solo\<close>, whose
  defaults on disk set no player counts, without a room code, so a room is created for it.  The states of the run are reachable;
  the theorems about reachable states are applied to the last one.
\<close>

fun run_events :: "(world \<times> event) list \<Rightarrow> system \<Rightarrow> system option" where
  "run_events [] y = Some y"
| "run_events ((w, ev) # es) y = Option.bind (happens w ev y) (run_events es)"

lemma reachable_run_events:
  "reachable f y \<Longrightarrow> run_events es y = Some y' \<Longrightarrow> \<forall>(w, ev) \<in> set es. w_case_fold w = f \<Longrightarrow> reachable f y'"
proof (induction es arbitrary: y)
  case (Cons e es)
  obtain w ev where e: "e = (w, ev)" by fastforce
  with Cons.prems(2) obtain y1 where y1: "happens w ev y = Some y1" "run_events es y1 = Some y'"
    by (auto simp: bind_eq_Some_conv)
  have "sys_step f y y1" using Cons.prems(3) y1(1) by (auto simp: e intro: stepI)
  with Cons.prems(1) have "reachable f y1" by (rule reachable.step)
  with Cons.IH y1(2) Cons.prems(3) show ?case by simp
qed simp

lemma run_events_append: "run_events (es @ fs) y = Option.bind (run_events es y) (run_events fs)"
proof (induction es arbitrary: y)
  case (Cons e es)
  then show ?case by (cases e; cases "happens (fst e) (snd e) y") simp_all
qed simp

text \<open>The payload \<open>[0]\<close> decodes to the Hello, \<open>[1]\<close> to a move, \<open>[2]\<close> to a kick of peer 1, others to a Ping.\<close>

definition wire_world :: world where
  "wire_world = quiet_world\<lparr>w_app_dir := Some ''/apps'', w_is_dir := (\<lambda>d. d = ''/apps''),
     w_read_to_string := (\<lambda>p. if p = ''/apps/solo.json'' then Some [] else None),
     w_parse_defaults := (\<lambda>_. Some (None, None)), w_bincode_de := (\<lambda>_ p.
     if p = [0] then Some (Hello ''solo'' (RoomCode []) ''h'' None None None)
     else if p = [1] then Some (Move [5])
     else if p = [2] then Some (RoomControl (Kick 1)) else Some Ping)\<rparr>"

lemma wire_world_fold [simp]: "w_case_fold wire_world = map ascii_lower"
  by (simp add: wire_world_def quiet_world_def)

definition demo_code :: room_code where
  "demo_code = RoomCode ''ABCDEF''"

lemma demo_code_key: "map ascii_lower (code_str demo_code) = ''abcdef''"
  by code_simp

lemma demo_draw: "rng_pos s = 0 \<Longrightarrow> random_code wire_world s = (demo_code, s\<lparr>rng_pos := 6\<rparr>)"
proof -
  have "map (\<lambda>i. ROOM_CODE_CHARS ! w_gen_range wire_world (0 + i) (length ROOM_CODE_CHARS)) [0..<ROOM_CODE_LEN] = ''ABCDEF''"
    by code_simp
  then show "rng_pos s = 0 \<Longrightarrow> random_code wire_world s = (demo_code, s\<lparr>rng_pos := 6\<rparr>)"
    by (simp add: random_code_def demo_code_def ROOM_CODE_LEN_def)
qed

lemma demo_create_room:
  assumes "rooms p = Map.empty" and "rng_pos s = 0"
  shows "create_room wire_world st [] (p, s) =
    (Some (demo_code, next_addr s), p\<lparr>rooms := [''abcdef'' \<mapsto> next_addr s]\<rparr>,
     s\<lparr>rng_pos := 6, heap := (heap s)(next_addr s := Room_new wire_world (pool_app_key p) demo_code st),
       next_addr := Suc (next_addr s)\<rparr>)"
proof -
  have key: "code_key wire_world demo_code = ''abcdef''" by (simp add: code_key_def demo_code_key)
  have "try_random_codes (Suc n) wire_world st (p, s) =
    (Some (demo_code, next_addr s), p\<lparr>rooms := [''abcdef'' \<mapsto> next_addr s]\<rparr>,
     s\<lparr>rng_pos := 6, heap := (heap s)(next_addr s := Room_new wire_world (pool_app_key p) demo_code st),
       next_addr := Suc (next_addr s)\<rparr>)" for n
    using assms by (simp add: demo_draw try_insert_new_room_def key Let_def)
  from this [of 19] show ?thesis
    by (simp add: create_room_def ROOM_CODE_GEN_RETRIES_def)
qed

definition demo_info0 :: client_info where
  "demo_info0 = \<lparr>client_hash = ClientHash ''h'', display_name = None, tx = 0, side = 0\<rparr>"

definition demo_settings :: room_settings where
  "demo_settings = default_settings"

lemma demo_join_room:
  "\<exists>r' lg'. join_room wire_world demo_code 0 ''h'' None None (Room_new wire_world ''solo'' demo_code demo_settings, lg) =
     (Inr (1, Joined demo_code 1 1 0 demo_settings None), (r', lg')) \<and> member_info r' = [1 \<mapsto> demo_info0] \<and>
     host_peer_id r' = 1 \<and> state r' = [] \<and> settings r' = demo_settings \<and> banned r' = {} \<and> lg' = lg"
proof -
  let ?r = "Room_new wire_world ''solo'' demo_code demo_settings"
  have "\<not> is_full ?r" "password_ok ?r None" "demo_settings\<lparr>password := None\<rparr> = demo_settings"
    by (simp_all add: is_full_def password_ok_def Room_new_def demo_settings_def default_settings_def)
  with join_new_room [of wire_world "''solo''" demo_code demo_settings None wire_world demo_code 0 "''h''" None lg]
  show ?thesis by (auto simp: demo_info0_def)
qed

lemma demo_hello:
  "\<exists>s'. dispatch wire_world None 0 (Hello ''solo'' (RoomCode []) ''h'' None None None) (server_init quiet_world) =
     ([Joined demo_code 1 1 0 demo_settings None],
      Some \<lparr>s_app_key = ''solo'', s_room_code = demo_code, s_peer_id = 1\<rparr>, s') \<and>
     registered s' ''solo'' ''abcdef'' 0 \<and> member_info (heap s' 0) = [1 \<mapsto> demo_info0] \<and>
     host_peer_id (heap s' 0) = 1 \<and> settings (heap s' 0) = demo_settings \<and> state (heap s' 0) = [] \<and>
     next_addr s' = 1 \<and> sends s' = [] \<and>
     registry s' = [''solo'' \<mapsto> \<lparr>pool_app_key = ''solo'', rooms = [''abcdef'' \<mapsto> 0]\<rparr>] \<and>
     locked s' = {} \<and> cache s' = [''solo'' \<mapsto> demo_settings] \<and> banned (heap s' 0) = {}"
proof -
  let ?s = "server_init quiet_world"
  let ?c = "[''solo'' \<mapsto> demo_settings]" and ?p = "RoomPool_new ''solo''"
  let ?s1 = "?s\<lparr>cache := ?c\<rparr>"
  have "app_dir wire_world = Some ''/apps''" by (simp add: app_dir_def wire_world_def Let_def)
  then have fb: "load_settings_from_disk wire_world ''solo'' = Some demo_settings"
    by (simp add: load_settings_from_disk_def path_join_def demo_settings_def default_settings_def)
      (simp add: wire_world_def default_settings_def)
  have ad: "hello_admit wire_world ''solo'' (RoomCode []) ''h'' None None None ?s = (Inr (), ?s1)"
  proof -
    have "w_app_secret wire_world = None" by (simp add: wire_world_def quiet_world_def)
    then show ?thesis
      by (simp add: hello_admit_def validate_hello_def len_limits too_long_def auth_ok_def
          is_registered_app_def is_builtin_app_def fb server_init_def)
  qed
  let ?s2 = "?s1\<lparr>registry := [''solo'' \<mapsto> ?p]\<rparr>"
  let ?s3 = "?s2\<lparr>rng_pos := 6, heap := (heap ?s2)(0 := Room_new wire_world ''solo'' demo_code demo_settings),
     next_addr := 1\<rparr>"
  have i: "registry ?s1 = Map.empty" "next_addr ?s2 = 0" "rng_pos ?s2 = 0" "sends ?s = []"
    by (simp_all add: server_init_def)
  have "create_room wire_world demo_settings [] (?p, ?s2) =
      (Some (demo_code, 0), ?p\<lparr>rooms := [''abcdef'' \<mapsto> 0]\<rparr>, ?s3)"
    using demo_create_room [of ?p ?s2 demo_settings] i by (simp add: RoomPool_new_def)
  then have hr: "hello_room wire_world ''solo'' (RoomCode []) ?s1 =
      (Inr (demo_code, 0), ?s3\<lparr>registry := [''solo'' \<mapsto> ?p\<lparr>rooms := [''abcdef'' \<mapsto> 0]\<rparr>]\<rparr>)"
    by (simp add: hello_room_def default_room_settings_for_app_def Let_def server_init_def)
  from demo_join_room [of "[]"] obtain r' lg' where
    "join_room wire_world demo_code 0 ''h'' None None (Room_new wire_world ''solo'' demo_code demo_settings, []) =
      (Inr (1, Joined demo_code 1 1 0 demo_settings None), (r', lg'))"
    "member_info r' = [1 \<mapsto> demo_info0]" "host_peer_id r' = 1" "settings r' = demo_settings" "state r' = []"
    "lg' = []" "banned r' = {}" by blast
  with ad hr i show ?thesis
    by (simp add: dispatch_defs handle_hello_def leave_old_def hello_join_def Let_def registered_def RoomPool_new_def
        server_init_def)
qed

definition demo_events :: "(world \<times> event) list" where
  "demo_events = [(wire_world, Accept Tcp), (wire_world, Admit Tcp 0), (wire_world, TcpRound 0 0 0 (TcpFrame [0]))]"

text \<open>The state after the Hello: peer 1 of room ABCDEF is connection 0.\<close>

lemma demo_reachable:
  "\<exists>y c. reachable (map ascii_lower) y \<and> run_events demo_events (system_init quiet_world) = Some y \<and>
     registered (srv y) ''solo'' ''abcdef'' 0 \<and> member_info (heap (srv y) 0) = [1 \<mapsto> demo_info0] \<and>
     slots y 0 = Some (Serving Tcp c) \<and>
     c_session c = Some \<lparr>s_app_key = ''solo'', s_room_code = demo_code, s_peer_id = 1\<rparr> \<and>
     host_peer_id (heap (srv y) 0) = 1 \<and> settings (heap (srv y) 0) = demo_settings \<and>
     state (heap (srv y) 0) = [] \<and> next_addr (srv y) = 1 \<and>
     sends (srv y) = [(0, Joined demo_code 1 1 0 demo_settings None, Sent)]"
proof -
  let ?y2 = "system_init quiet_world\<lparr>conn_count := 1, slots := [0 \<mapsto> Serving Tcp (connection_new 0 0)], next_conn := 1\<rparr>"
  have y2: "run_events [(wire_world, Accept Tcp), (wire_world, Admit Tcp 0)] (system_init quiet_world) = Some ?y2"
    by (simp add: system_init_def fetch_add_def admit_or_drop_def MAX_CONNECTIONS_def new_slot_def)
  obtain s' where d: "dispatch wire_world None 0 (Hello ''solo'' (RoomCode []) ''h'' None None None) (server_init quiet_world) =
     ([Joined demo_code 1 1 0 demo_settings None],
      Some \<lparr>s_app_key = ''solo'', s_room_code = demo_code, s_peer_id = 1\<rparr>, s')"
    and s': "registered s' ''solo'' ''abcdef'' 0" "member_info (heap s' 0) = [1 \<mapsto> demo_info0]"
      "host_peer_id (heap s' 0) = 1" "sends s' = []" "settings (heap s' 0) = demo_settings"
      "state (heap s' 0) = []" "next_addr s' = 1"
    using demo_hello by blast
  have "deserialize_room_code [] = RoomCode []" by (simp add: deserialize_room_code_def)
  then have dec: "decode wire_world [0] = Inr (Hello ''solo'' (RoomCode []) ''h'' None None None)"
    by (simp add: decode_def wire_world_def)
  let ?c = "(connection_new 0 0)\<lparr>rate_count := 1, idle_deadline := CONNECTION_IDLE_TIMEOUT,
     c_session := Some \<lparr>s_app_key = ''solo'', s_room_code = demo_code, s_peer_id = 1\<rparr>\<rparr>"
  let ?s = "reply wire_world 0 [Joined demo_code 1 1 0 demo_settings None] s'"
  have tr: "tcp_round wire_world 0 0 (TcpFrame [0]) (connection_new 0 0) (server_init quiet_world) = Continue ?c ?s"
    using d dec by (simp add: handle_payload_def count_frame_def RATE_LIMIT_WINDOW_def RATE_LIMIT_MAX_def
        connection_new_def Let_def)
  let ?y = "?y2\<lparr>srv := ?s, slots := [0 \<mapsto> Serving Tcp ?c]\<rparr>"
  have "happens wire_world (TcpRound 0 0 0 (TcpFrame [0])) ?y2 = Some ?y"
    using tr by (simp add: system_init_def after_round_def)
  with y2 have run: "run_events demo_events (system_init quiet_world) = Some ?y"
    using run_events_append [of "[(wire_world, Accept Tcp), (wire_world, Admit Tcp 0)]"
        "[(wire_world, TcpRound 0 0 0 (TcpFrame [0]))]"]
    unfolding demo_events_def by (simp del: run_events.simps(2) add: run_events.simps(2) [of wire_world "TcpRound 0 0 0 (TcpFrame [0])"])
  moreover have "reachable (map ascii_lower) ?y"
    by (rule reachable_run_events [OF reachable.start run]) (simp add: demo_events_def)
  moreover have "registered ?s ''solo'' ''abcdef'' 0" using s'(1) by (simp add: registered_def reply_def)
  moreover have "sends ?s = [(0, Joined demo_code 1 1 0 demo_settings None, Sent)]"
    using s'(4) by (simp add: try_send_def wire_world_def quiet_world_def Let_def)
  ultimately show ?thesis using s'(2,3,5-) by (intro exI [of _ ?y] exI [of _ ?c]) (simp add: reply_def)
qed

end
