(* ===== verification/Tasks.thy ===== *)
theory Tasks
  imports System Abstraction Http
begin

text \<open>
  The tasks of the server at the grain of their locks.  \<open>dispatch\<close> and \<open>leave_room\<close> are not
  atomic: between two accesses to a shared map, and between such an access and the acquisition of
  a room's mutex, other tasks run.  Here every task has a program counter, and a step is one access to
  the registry, to a pool or to the cache, the acquisition of a mutex, or the work done under
  it together with its release.

  The concurrent maps are divided into shards, each under a readers-writer lock.  An access that is over
  in one step holds its shard only meanwhile; a task that keeps a reference into a map, or iterates over
  it, keeps the shard's read lock from step to step (\<open>guards\<close>), and an access that inserts or removes
  waits until nobody reads the shard (\<open>write_shard\<close>).  A task whose shard is read, or whose mutex is
  held, has no step.
\<close>

section \<open>Shards\<close>

text \<open>
  Which shard a key is in is the maps' own affair (the hasher of each map is drawn when it is created);
  it never changes.  The registry is the map named by the empty string, a pool is named by its app key.
\<close>

record sharding =
  shard_count :: nat
  shard_hash :: "string \<Rightarrow> string \<Rightarrow> nat"

definition shard_of :: "sharding \<Rightarrow> string \<Rightarrow> string \<Rightarrow> nat" where
  "shard_of sd m k = shard_hash sd m k mod shard_count sd"

datatype map_shard = RegistryShard nat | PoolShard string nat

abbreviation registry_shard :: "sharding \<Rightarrow> string \<Rightarrow> map_shard" where
  "registry_shard sd a \<equiv> RegistryShard (shard_of sd [] a)"

abbreviation pool_shard :: "sharding \<Rightarrow> string \<Rightarrow> string \<Rightarrow> map_shard" where
  "pool_shard sd a k \<equiv> PoolShard a (shard_of sd a k)"

section \<open>Program counters\<close>

record hello =
  h_app_key :: string
  h_room_code :: room_code
  h_client_hash :: string
  h_display_name :: "string option"
  h_auth_token :: "string option"
  h_password :: "string option"

text \<open>What follows a call of \<open>leave_room\<close>: the rest of a Hello, the empty answer to \<open>Leave\<close>, or the
  end of the task.\<close>

datatype goal = ThenHello hello | ThenReply | ThenEnd

text \<open>
  An iteration over the rooms of a pool: the app, the shard it is in, the keys of the shard and the
  shards still to visit.  Likewise one over the registry, with the statistics gathered so far.
\<close>

datatype visit = Visit string nat "string list" "nat list"

datatype survey = Survey nat "string list" "nat list" "game_stats list"

datatype pc =
    Idle
  | LeaveLookup session goal
  | LeaveLock session goal addr
  | LeaveRun session goal addr
  | LeaveDrop session goal
  | LeaveRemove session goal
  | HelloAdmit hello
  | HelloPool hello
  | HelloFind hello
  | HelloCreate hello room_settings nat
  | HelloTry hello room_settings nat room_code
  | HelloFallback hello room_settings
  | HelloInsert hello room_settings u64
  | HelloLock hello room_code addr
  | HelloRun hello room_code addr
  | ActLookup session client_message
  | ActLock session client_message addr
  | ActRun session client_message addr
  | ListApp string
  | ListPool string
  | ListNext visit "room_list_entry list"
  | ListRead visit "room_list_entry list" addr
  | Reply "server_message list"
  | StatsBegin
  | StatsApps survey
  | StatsRooms survey visit nat
  | StatsRead survey visit nat addr
  | StatsReply stats_response

text \<open>A task is its session variable and its program counter; \<open>None\<close> is a task that has ended.\<close>

type_synonym worker = "session option \<times> pc"

section \<open>A message arrives, a connection ends\<close>

text \<open>\<open>dispatch\<close> up to its first access to shared state.\<close>

definition need_session :: "server_message list \<Rightarrow> session option \<Rightarrow> (session \<Rightarrow> worker) \<Rightarrow> worker" where
  "need_session otherwise so f = (case so of None \<Rightarrow> (None, Reply otherwise) | Some ss \<Rightarrow> f ss)"

fun begin_message :: "session option \<Rightarrow> client_message \<Rightarrow> worker" where
  "begin_message so (Hello a rc h d t pw) =
     (let hello = \<lparr>h_app_key = a, h_room_code = rc, h_client_hash = h, h_display_name = d,
                   h_auth_token = t, h_password = pw\<rparr>
      in case so of
           Some old \<Rightarrow> (None, LeaveLookup old (ThenHello hello))
         | None \<Rightarrow> (None, HelloAdmit hello))"
| "begin_message so (Move blob) =
     need_session [Error ''not in a room''] so (\<lambda>ss. (so, ActLookup ss (Move blob)))"
| "begin_message so (Input blob) =
     need_session [Error ''not in a room''] so (\<lambda>ss. (so, ActLookup ss (Input blob)))"
| "begin_message so (RoomControl rc) =
     need_session [Error ''not in a room''] so (\<lambda>ss.
       (case rc of
          Leave \<Rightarrow> (None, LeaveLookup ss ThenReply)
        | CreateRoom _ \<Rightarrow> (so, Reply [Error ''already in a room''])
        | _ \<Rightarrow> (so, ActLookup ss (RoomControl rc))))"
| "begin_message so RequestState = need_session [] so (\<lambda>ss. (so, ActLookup ss RequestState))"
| "begin_message so Ping = (so, Reply [Pong])"
| "begin_message so (ListRooms a) = (so, ListApp a)"

text \<open>The loop of the connection was left: \<open>if let Some(s) = session.take()\<close>.\<close>

definition begin_close :: "session option \<Rightarrow> worker option" where
  "begin_close so = (case so of None \<Rightarrow> None | Some ss \<Rightarrow> Some (None, LeaveLookup ss ThenEnd))"

section \<open>Shards held and wanted\<close>

text \<open>
  The shards a task reads at a program counter: \<open>pool_ref\<close> while a room is created and while the rooms are
  listed, the pool while \<open>remove_if_empty\<close> is called, and the shards an iteration is in.
\<close>

fun guards :: "sharding \<Rightarrow> pc \<Rightarrow> map_shard set" where
  "guards sd (LeaveRemove ss g) = {registry_shard sd (s_app_key ss)}"
| "guards sd (HelloCreate h st n) = {registry_shard sd (h_app_key h)}"
| "guards sd (HelloTry h st n c) = {registry_shard sd (h_app_key h)}"
| "guards sd (HelloFallback h st) = {registry_shard sd (h_app_key h)}"
| "guards sd (HelloInsert h st n) = {registry_shard sd (h_app_key h)}"
| "guards sd (ListNext (Visit a n ks ns) acc) = {registry_shard sd a, PoolShard a n}"
| "guards sd (ListRead (Visit a n ks ns) acc ad) = {registry_shard sd a, PoolShard a n}"
| "guards sd (StatsApps (Survey m aps ms gs)) = {RegistryShard m}"
| "guards sd (StatsRooms (Survey m aps ms gs) (Visit a n ks ns) c) = {RegistryShard m, PoolShard a n}"
| "guards sd (StatsRead (Survey m aps ms gs) (Visit a n ks ns) c ad) = {RegistryShard m, PoolShard a n}"
| "guards sd _ = {}"

text \<open>The shard the next step writes to: \<open>entry\<close> of the registry, \<open>entry\<close> and \<open>remove_if\<close> of a pool.\<close>

fun write_shard :: "world \<Rightarrow> sharding \<Rightarrow> pc \<Rightarrow> map_shard option" where
  "write_shard w sd (LeaveRemove ss g) = Some (pool_shard sd (s_app_key ss) (code_key w (s_room_code ss)))"
| "write_shard w sd (HelloPool h) = Some (registry_shard sd (h_app_key h))"
| "write_shard w sd (HelloTry h st n c) = Some (pool_shard sd (h_app_key h) (code_key w c))"
| "write_shard w sd (HelloInsert h st n) = Some (pool_shard sd (h_app_key h) (code_key w (fallback_code n)))"
| "write_shard w sd _ = None"

section \<open>The steps of a task\<close>

text \<open>After \<open>leave_room\<close>.\<close>

fun finished :: "session option \<Rightarrow> goal \<Rightarrow> worker option" where
  "finished so (ThenHello h) = Some (so, HelloAdmit h)"
| "finished so ThenReply = Some (so, Reply [])"
| "finished so ThenEnd = None"

text \<open>\<open>room_arc.lock()\<close>: no step while the mutex is held.\<close>

definition acquire :: "addr \<Rightarrow> worker \<Rightarrow> server \<Rightarrow> (worker option \<times> server) option" where
  "acquire ad wk s =
     (if ad \<in> locked s then None else Some (Some wk, s\<lparr>locked := insert ad (locked s)\<rparr>))"

definition release :: "addr \<Rightarrow> server \<Rightarrow> server" where
  "release ad s = s\<lparr>locked := locked s - {ad}\<rparr>"

text \<open>The handler of a message that works on the session's room.\<close>

fun act_in_room :: "world \<Rightarrow> peer_id \<Rightarrow> client_message \<Rightarrow> room_ctx \<Rightarrow> server_message list \<times> room_ctx" where
  "act_in_room w pid (Move blob) ctx = move_in_room w pid blob ctx"
| "act_in_room w pid (Input blob) ctx = input_in_room w pid blob ctx"
| "act_in_room w pid (RoomControl rc) ctx = control_in_room w pid rc ctx"
| "act_in_room w pid RequestState ctx = state_in_room ctx"
| "act_in_room w pid _ ctx = ([], ctx)"

lemma act_in_room_eta:
  "act_in_room w pid (Move blob) = move_in_room w pid blob"
  "act_in_room w pid (Input blob) = input_in_room w pid blob"
  "act_in_room w pid (RoomControl rc) = control_in_room w pid rc"
  "act_in_room w pid RequestState = state_in_room"
  by (rule ext; simp)+

text \<open>One \<open>try_insert_new_room\<close> on the pool of the app \<open>a\<close>: an atomic check and insert.\<close>

definition insert_room ::
  "world \<Rightarrow> string \<Rightarrow> room_code \<Rightarrow> room_settings \<Rightarrow> server \<Rightarrow> (room_code \<times> addr) option \<times> server" where
  "insert_room w a c st s =
     (case registry s a of
        None \<Rightarrow> (None, s)
      | Some p \<Rightarrow> (let (res, p', s') = try_insert_new_room w c st (p, s) in (res, put_pool a p' s')))"

definition list_entry :: "room \<Rightarrow> room_list_entry list \<Rightarrow> room_list_entry list" where
  "list_entry r acc = (if \<not> is_public (settings r) \<or> is_full r then acc else acc @ [room_entry r])"

text \<open>The keys of one shard, in the order of the map's iteration.\<close>

definition registry_keys :: "world \<Rightarrow> sharding \<Rightarrow> server \<Rightarrow> nat \<Rightarrow> string list" where
  "registry_keys w sd s n = w_iter w [] {a \<in> dom (registry s). shard_of sd [] a = n}"

definition pool_keys :: "world \<Rightarrow> sharding \<Rightarrow> server \<Rightarrow> string \<Rightarrow> nat \<Rightarrow> string list" where
  "pool_keys w sd s a n =
     (case registry s a of None \<Rightarrow> [] | Some p \<Rightarrow> w_iter w a {k \<in> dom (rooms p). shard_of sd a k = n})"

definition visit_shard :: "world \<Rightarrow> sharding \<Rightarrow> server \<Rightarrow> string \<Rightarrow> nat \<Rightarrow> nat list \<Rightarrow> visit" where
  "visit_shard w sd s a n ns = Visit a n (pool_keys w sd s a n) ns"

definition room_at :: "server \<Rightarrow> string \<Rightarrow> string \<Rightarrow> addr option" where
  "room_at s a k = Option.bind (registry s a) (\<lambda>p. rooms p k)"

definition stats_of :: "server \<Rightarrow> string \<Rightarrow> nat \<Rightarrow> game_stats" where
  "stats_of s a players =
     \<lparr>gs_id = a,
      gs_rooms = word_of_nat (case registry s a of None \<Rightarrow> 0 | Some p \<Rightarrow> card (dom (rooms p))),
      gs_players = word_of_nat players\<rparr>"

text \<open>
  A step whose shard is free to write.  \<open>None\<close>: the task has no step, because it waits for a message or
  for a mutex.
\<close>

fun proceed ::
  "world \<Rightarrow> sharding \<Rightarrow> conn_id \<Rightarrow> session option \<Rightarrow> pc \<Rightarrow> server \<Rightarrow> (worker option \<times> server) option" where
  "proceed w sd i so Idle s = None"
| "proceed w sd i so (LeaveLookup ss g) s =
     Some (case lookup_room w s (s_app_key ss) (s_room_code ss) of
             None \<Rightarrow> (finished so g, s)
           | Some ad \<Rightarrow> (Some (so, LeaveLock ss g ad), s))"
| "proceed w sd i so (LeaveLock ss g ad) s = acquire ad (so, LeaveRun ss g ad) s"
| "proceed w sd i so (LeaveRun ss g ad) s =
     (let s1 = with_room ad (leave_in_room w (s_peer_id ss)) s
      in Some (if room_is_empty (heap s1 ad) then Some (so, LeaveDrop ss g) else finished so g, release ad s1))"
| "proceed w sd i so (LeaveDrop ss g) s =
     Some (case registry s (s_app_key ss) of
             None \<Rightarrow> (finished so g, s)
           | Some p \<Rightarrow> (Some (so, LeaveRemove ss g), s))"
| "proceed w sd i so (LeaveRemove ss g) s =
     Some (finished so g, drop_if_empty w (s_app_key ss) (s_room_code ss) s)"
| "proceed w sd i so (HelloAdmit h) s =
     Some (case hello_admit w (h_app_key h) (h_room_code h) (h_client_hash h) (h_display_name h)
                  (h_auth_token h) (h_password h) s of
             (Inl e, s1) \<Rightarrow> (Some (so, Reply [Error e]), s1)
           | (Inr _, s1) \<Rightarrow> (Some (so, HelloPool h), s1))"
| "proceed w sd i so (HelloPool h) s = Some (Some (so, HelloFind h), ensure_pool (h_app_key h) s)"
| "proceed w sd i so (HelloFind h) s =
     Some (case registry s (h_app_key h) of
             None \<Rightarrow> (Some (so, Reply [Error ''internal error'']), s)
           | Some p \<Rightarrow>
               if code_str (h_room_code h) = []
               then let (st, c) = default_room_settings_for_app w (h_app_key h) (cache s)
                    in (Some (so, HelloCreate h st ROOM_CODE_GEN_RETRIES), s\<lparr>cache := c\<rparr>)
               else (case get_room w p (h_room_code h) of
                       Some ad \<Rightarrow> (Some (so, HelloLock h (h_room_code h) ad), s)
                     | None \<Rightarrow> (Some (so, Reply [Error ''room not found'']), s)))"
| "proceed w sd i so (HelloCreate h st 0) s = Some (Some (so, HelloFallback h st), s)"
| "proceed w sd i so (HelloCreate h st (Suc n)) s =
     (let (c, s1) = random_code w s in Some (Some (so, HelloTry h st n c), s1))"
| "proceed w sd i so (HelloTry h st n c) s =
     (let (res, s1) = insert_room w (h_app_key h) c st s
      in Some (case res of
                 Some (c', ad) \<Rightarrow> (Some (so, HelloLock h c' ad), s1)
               | None \<Rightarrow> (Some (so, HelloCreate h st n), s1)))"
| "proceed w sd i so (HelloFallback h st) s =
     Some (Some (so, HelloInsert h st (fallback_counter s)), s\<lparr>fallback_counter := fallback_counter s + 1\<rparr>)"
| "proceed w sd i so (HelloInsert h st n) s =
     (let (res, s1) = insert_room w (h_app_key h) (fallback_code n) st s
      in Some (case res of
                 Some (c', ad) \<Rightarrow> (Some (so, HelloLock h c' ad), s1)
               | None \<Rightarrow> (Some (so, Reply [Error ''failed to create room'']), s1)))"
| "proceed w sd i so (HelloLock h c ad) s = acquire ad (so, HelloRun h c ad) s"
| "proceed w sd i so (HelloRun h c ad) s =
     (let (out, so', s1) = hello_join w (h_app_key h) c ad i (h_client_hash h) (h_display_name h) (h_password h) s
      in Some (Some (so', Reply out), release ad s1))"
| "proceed w sd i so (ActLookup ss m) s =
     Some (case lookup_room w s (s_app_key ss) (s_room_code ss) of
             None \<Rightarrow> (Some (so, Reply []), s)
           | Some ad \<Rightarrow> (Some (so, ActLock ss m ad), s))"
| "proceed w sd i so (ActLock ss m ad) s = acquire ad (so, ActRun ss m ad) s"
| "proceed w sd i so (ActRun ss m ad) s =
     (let (out, (r, lg)) = act_in_room w (s_peer_id ss) m (heap s ad, sends s)
      in Some (Some (so, Reply out), release ad (s\<lparr>heap := (heap s)(ad := r), sends := lg\<rparr>)))"
| "proceed w sd i so (ListApp a) s =
     (let (registered, c) = is_registered_app w a (cache s)
      in Some (Some (so, if registered then ListPool a else Reply [Error ''unregistered game type'']),
               s\<lparr>cache := c\<rparr>))"
| "proceed w sd i so (ListPool a) s =
     Some (case registry s a of
             None \<Rightarrow> (Some (so, Reply [RoomList []]), s)
           | Some p \<Rightarrow> (Some (so, ListNext (visit_shard w sd s a 0 [1..<shard_count sd]) []), s))"
| "proceed w sd i so (ListNext (Visit a n [] []) acc) s = Some (Some (so, Reply [RoomList acc]), s)"
| "proceed w sd i so (ListNext (Visit a n [] (n' # ns)) acc) s =
     Some (Some (so, ListNext (visit_shard w sd s a n' ns) acc), s)"
| "proceed w sd i so (ListNext (Visit a n (k # ks) ns) acc) s =
     (case room_at s a k of
        None \<Rightarrow> Some (Some (so, ListNext (Visit a n ks ns) acc), s)
      | Some ad \<Rightarrow> acquire ad (so, ListRead (Visit a n ks ns) acc ad) s)"
| "proceed w sd i so (ListRead v acc ad) s =
     Some (Some (so, ListNext v (list_entry (heap s ad) acc)), release ad s)"
| "proceed w sd i so (Reply ms) s = Some (Some (so, Idle), reply w i ms s)"
| "proceed w sd i so StatsBegin s =
     Some (Some (so, StatsApps (Survey 0 (registry_keys w sd s 0) [1..<shard_count sd] [])), s)"
| "proceed w sd i so (StatsApps (Survey m [] [] gs)) s = Some (Some (so, StatsReply \<lparr>games = gs\<rparr>), s)"
| "proceed w sd i so (StatsApps (Survey m [] (m' # ms) gs)) s =
     Some (Some (so, StatsApps (Survey m' (registry_keys w sd s m') ms gs)), s)"
| "proceed w sd i so (StatsApps (Survey m (a # aps) ms gs)) s =
     Some (Some (so, StatsRooms (Survey m aps ms gs) (visit_shard w sd s a 0 [1..<shard_count sd]) 0), s)"
| "proceed w sd i so (StatsRooms (Survey m aps ms gs) (Visit a n [] []) c) s =
     Some (Some (so, StatsApps (Survey m aps ms (gs @ [stats_of s a c]))), s)"
| "proceed w sd i so (StatsRooms sv (Visit a n [] (n' # ns)) c) s =
     Some (Some (so, StatsRooms sv (visit_shard w sd s a n' ns) c), s)"
| "proceed w sd i so (StatsRooms sv (Visit a n (k # ks) ns) c) s =
     (case room_at s a k of
        None \<Rightarrow> Some (Some (so, StatsRooms sv (Visit a n ks ns) c), s)
      | Some ad \<Rightarrow> acquire ad (so, StatsRead sv (Visit a n ks ns) c ad) s)"
| "proceed w sd i so (StatsRead sv v c ad) s =
     Some (Some (so, StatsRooms sv v (c + player_count (heap s ad))), release ad s)"
| "proceed w sd i so (StatsReply resp) s = Some (None, s)"

text \<open>\<open>busy\<close>: the shards that tasks are reading.  A write waits for them.\<close>

definition advance ::
  "world \<Rightarrow> sharding \<Rightarrow> map_shard set \<Rightarrow> conn_id \<Rightarrow> session option \<Rightarrow> pc \<Rightarrow> server
   \<Rightarrow> (worker option \<times> server) option" where
  "advance w sd busy i so p s =
     (case write_shard w sd p of
        None \<Rightarrow> proceed w sd i so p s
      | Some x \<Rightarrow> if x \<in> busy then None else proceed w sd i so p s)"

lemma advance_proceed: "advance w sd busy i so p s = Some x \<Longrightarrow> proceed w sd i so p s = Some x"
  by (auto simp: advance_def split: option.splits if_splits)

section \<open>All tasks together\<close>

record tasks =
  sharding :: sharding
  store :: server
  workers :: "conn_id \<rightharpoonup> worker"
  next_worker :: conn_id

definition tasks_init :: "sharding \<Rightarrow> world \<Rightarrow> tasks" where
  "tasks_init sd w = \<lparr>sharding = sd, store = server_init w, workers = Map.empty, next_worker = 0\<rparr>"

text \<open>The shards that are read in a state.\<close>

definition busy_shards :: "tasks \<Rightarrow> map_shard set" where
  "busy_shards y =
     (\<Union>i \<in> {..<next_worker y}. case workers y i of None \<Rightarrow> {} | Some (so, p) \<Rightarrow> guards (sharding y) p)"

text \<open>\<open>Request\<close>: a request for the statistics arrives, and is served by a task of its own.\<close>

datatype task_event =
    Open
  | Request
  | Receive conn_id client_message
  | Hangup conn_id
  | Advance conn_id

fun task_happens :: "world \<Rightarrow> task_event \<Rightarrow> tasks \<Rightarrow> tasks option" where
  "task_happens w Open y =
     Some (y\<lparr>workers := (workers y)(next_worker y \<mapsto> (None, Idle)), next_worker := Suc (next_worker y)\<rparr>)"
| "task_happens w Request y =
     Some (y\<lparr>workers := (workers y)(next_worker y \<mapsto> (None, StatsBegin)), next_worker := Suc (next_worker y)\<rparr>)"
| "task_happens w (Receive i msg) y =
     (case workers y i of
        Some (so, Idle) \<Rightarrow> Some (y\<lparr>workers := (workers y)(i \<mapsto> begin_message so msg)\<rparr>)
      | _ \<Rightarrow> None)"
| "task_happens w (Hangup i) y =
     (case workers y i of
        Some (so, Idle) \<Rightarrow> Some (y\<lparr>workers := (workers y)(i := begin_close so)\<rparr>)
      | _ \<Rightarrow> None)"
| "task_happens w (Advance i) y =
     (case workers y i of
        None \<Rightarrow> None
      | Some (so, p) \<Rightarrow>
          (case advance w (sharding y) (busy_shards y) i so p (store y) of
             None \<Rightarrow> None
           | Some (wk, s) \<Rightarrow> Some (y\<lparr>store := s, workers := (workers y)(i := wk)\<rparr>)))"

text \<open>The events by cases.\<close>

lemma task_advanceE:
  assumes "task_happens w (Advance i) y = Some y'"
  obtains so p wk s' where "workers y i = Some (so, p)"
    "advance w (sharding y) (busy_shards y) i so p (store y) = Some (wk, s')"
    "y' = y\<lparr>store := s', workers := (workers y)(i := wk)\<rparr>"
  using assms by (auto split: option.splits prod.splits)

lemma task_receiveE:
  assumes "task_happens w (Receive i msg) y = Some y'"
  obtains so where "workers y i = Some (so, Idle)"
    "y' = y\<lparr>workers := (workers y)(i := Some (begin_message so msg))\<rparr>"
  using assms by (auto split: option.splits prod.splits pc.splits)

lemma task_hangupE:
  assumes "task_happens w (Hangup i) y = Some y'"
  obtains so where "workers y i = Some (so, Idle)" "y' = y\<lparr>workers := (workers y)(i := begin_close so)\<rparr>"
  using assms by (auto split: option.splits prod.splits pc.splits)

text \<open>As for the system of whole rounds, every step has its own parameters but for the case folding.\<close>

inductive task_step :: "(string \<Rightarrow> string) \<Rightarrow> tasks \<Rightarrow> tasks \<Rightarrow> bool" where
  task_stepI: "w_case_fold w = f \<Longrightarrow> task_happens w ev y = Some y' \<Longrightarrow> task_step f y y'"

inductive tasks_reachable :: "(string \<Rightarrow> string) \<Rightarrow> tasks \<Rightarrow> bool" where
  init: "0 < shard_count sd \<Longrightarrow> tasks_reachable f (tasks_init sd w)"
| more: "tasks_reachable f y \<Longrightarrow> task_step f y y' \<Longrightarrow> tasks_reachable f y'"

inductive_cases task_stepE: "task_step f y y'"

section \<open>Mutexes held, and claims\<close>

fun holding :: "pc \<Rightarrow> addr option" where
  "holding (LeaveRun ss g ad) = Some ad"
| "holding (HelloRun h c ad) = Some ad"
| "holding (ActRun ss m ad) = Some ad"
| "holding (ListRead v acc ad) = Some ad"
| "holding (StatsRead sv v c ad) = Some ad"
| "holding _ = None"

text \<open>The place in a room that is a task's own: its session's, or the one it is about to leave.\<close>

fun claim :: "worker \<Rightarrow> session option" where
  "claim (so, LeaveLookup ss g) = Some ss"
| "claim (so, LeaveLock ss g ad) = Some ss"
| "claim (so, LeaveRun ss g ad) = Some ss"
| "claim (so, _) = so"

definition claim_of :: "tasks \<Rightarrow> conn_id \<Rightarrow> session option" where
  "claim_of y i = Option.bind (workers y i) claim"

definition holder :: "tasks \<Rightarrow> conn_id \<Rightarrow> addr \<Rightarrow> bool" where
  "holder y i ad \<longleftrightarrow> (\<exists>so p. workers y i = Some (so, p) \<and> holding p = Some ad)"

end
