(* ===== verification/Task_Invariant.thy ===== *)
theory Task_Invariant
  imports Tasks
begin

text \<open>
  Invariants of the tasks under every interleaving of their steps: the store stays well-formed, every
  member of a registered room is backed by the claim of the task that owns its channel, and the
  steps refine the abstract membership specification.
\<close>

section \<open>What one task's step leaves to the others\<close>

definition placed :: "server \<Rightarrow> string \<Rightarrow> string \<Rightarrow> addr \<Rightarrow> peer_id \<Rightarrow> client_info \<Rightarrow> bool" where
  "placed s a k ad pid i \<longleftrightarrow> registered s a k ad \<and> member_info (heap s ad) pid = Some i"

text \<open>The room at \<open>ad\<close> is, or was when it was registered, the one of app \<open>a\<close> and code \<open>c\<close>.\<close>

definition room_named :: "(string \<Rightarrow> string) \<Rightarrow> string \<Rightarrow> room_code \<Rightarrow> addr \<Rightarrow> server \<Rightarrow> bool" where
  "room_named f a c ad s \<longleftrightarrow>
     ad < next_addr s \<and> app_key (heap s ad) = a \<and> f (code_str (code (heap s ad))) = f (code_str c)"

text \<open>Registered rooms other than \<open>ad\<close> have no member on the channel of \<open>i\<close>.\<close>

definition confined :: "conn_id \<Rightarrow> addr \<Rightarrow> server \<Rightarrow> bool" where
  "confined i ad s \<longleftrightarrow> (\<forall>a k d pid info. placed s a k d pid info \<longrightarrow> tx info = i \<longrightarrow> d = ad)"

text \<open>
  \<open>evolves X s s'\<close>: rooms keep their identity, the log grows without passwords, and a member that
  is new in a registered room is on a channel of \<open>X\<close>.
\<close>

definition evolves :: "conn_id set \<Rightarrow> server \<Rightarrow> server \<Rightarrow> bool" where
  "evolves X s s' \<longleftrightarrow> next_addr s \<le> next_addr s' \<and>
     (\<forall>ad < next_addr s. app_key (heap s' ad) = app_key (heap s ad) \<and> code (heap s' ad) = code (heap s ad)) \<and>
     (\<forall>a k ad pid info. placed s' a k ad pid info \<longrightarrow> tx info \<notin> X \<longrightarrow> placed s a k ad pid info) \<and>
     log_step (sends s) (sends s')"

lemma evolves_mono: "evolves X s s' \<Longrightarrow> X \<subseteq> Y \<Longrightarrow> evolves Y s s'"
  unfolding evolves_def by blast

lemma room_named_evolves: "room_named f a c ad s \<Longrightarrow> evolves X s s' \<Longrightarrow> room_named f a c ad s'"
  unfolding room_named_def evolves_def by (metis order.strict_trans2)

lemma confined_evolves: "confined i ad s \<Longrightarrow> evolves X s s' \<Longrightarrow> i \<notin> X \<Longrightarrow> confined i ad s'"
  unfolding confined_def evolves_def by blast

lemma placed_member_at: "member_at s a k pid i \<longleftrightarrow> (\<exists>ad. placed s a k ad pid i)"
  by (simp add: member_at_def placed_def)

lemma backedD': "backed f sess s \<Longrightarrow> placed s a k ad pid i \<Longrightarrow> session_for f (sess (tx i)) a k pid"
  unfolding placed_def by (blast intro: backedD)

lemma backedI':
  "(\<And>a k ad pid i. placed s a k ad pid i \<Longrightarrow> session_for f (sess (tx i)) a k pid) \<Longrightarrow> backed f sess s"
  unfolding placed_def backed_def by blast

lemma evolves_fewer: "evolves {} s s' \<Longrightarrow> fewer s s'"
  unfolding evolves_def fewer_def placed_member_at by blast

lemma evolves_store_step:
  assumes "store_step s s'"
  shows "evolves {} s s'"
  using store_stepD [OF assms] unfolding evolves_def placed_def keeps_def map_le_def by (metis domI order_refl)

lemma evolves_created:
  assumes wf: "server_wf f s" and cr: "created w st a s res s'"
  shows "evolves {} s s'"
proof (cases res)
  case None
  with cr show ?thesis by (simp add: created_def evolves_def placed_def registered_def)
next
  case (Some x)
  obtain c ad where res: "res = Some (c, ad)" using Some by (cases x) auto
  have h: "heap s' = (heap s)(ad := Room_new w a c st)" "ad = next_addr s" "next_addr s' = Suc ad"
    "sends s' = sends s"
    using cr res by (auto simp: created_def)
  have "placed s b k d pid i" if "placed s' b k d pid i" for b k d pid i
  proof -
    from that have r: "registered s' b k d" and m: "member_info (heap s' d) pid = Some i" by (simp_all add: placed_def)
    have "d \<noteq> ad" using m h by auto
    with r created_registered [OF cr [unfolded res]] m h show ?thesis by (simp add: placed_def)
  qed
  with h show ?thesis by (simp add: evolves_def)
qed

section \<open>The mutexes do not matter to the other invariants\<close>

lemma locked_irrelevant [simp]:
  "registered (s\<lparr>locked := L\<rparr>) = registered s" "placed (s\<lparr>locked := L\<rparr>) = placed s"
  "server_wf f (s\<lparr>locked := L\<rparr>) = server_wf f s" "backed f sess (s\<lparr>locked := L\<rparr>) = backed f sess s"
  "evolves X s0 (s\<lparr>locked := L\<rparr>) = evolves X s0 s" "confined i ad (s\<lparr>locked := L\<rparr>) = confined i ad s"
  "room_named f a c ad (s\<lparr>locked := L\<rparr>) = room_named f a c ad s"
  "abs_members (s\<lparr>locked := L\<rparr>) = abs_members s"
  by (simp_all add: fun_eq_iff registered_def placed_def server_wf_def backed_def evolves_def confined_def
      room_named_def abs_members_def split: option.split)

lemma counters_irrelevant [simp]:
  "registered (s\<lparr>rng_pos := x\<rparr>) = registered s" "registered (s\<lparr>fallback_counter := n\<rparr>) = registered s"
  "placed (s\<lparr>rng_pos := x\<rparr>) = placed s" "placed (s\<lparr>fallback_counter := n\<rparr>) = placed s"
  "server_wf f (s\<lparr>rng_pos := x\<rparr>) = server_wf f s"
  "server_wf f (s\<lparr>fallback_counter := n\<rparr>) = server_wf f s"
  by (simp_all add: fun_eq_iff registered_def placed_def server_wf_def)

lemma release_irrelevant [simp]:
  "registered (release ad s) = registered s" "placed (release ad s) = placed s"
  "server_wf f (release ad s) = server_wf f s" "backed f sess (release ad s) = backed f sess s"
  "evolves X s0 (release ad s) = evolves X s0 s" "confined i d (release ad s) = confined i d s"
  "room_named f a c d (release ad s) = room_named f a c d s" "abs_members (release ad s) = abs_members s"
  by (simp_all add: release_def)

section \<open>Tasks in order\<close>

fun worker_ok :: "(string \<Rightarrow> string) \<Rightarrow> conn_id \<Rightarrow> session option \<Rightarrow> pc \<Rightarrow> server \<Rightarrow> bool" where
  "worker_ok f i so (LeaveLookup ss g) s \<longleftrightarrow> so = None"
| "worker_ok f i so (LeaveLock ss g ad) s \<longleftrightarrow> so = None \<and> confined i ad s"
| "worker_ok f i so (LeaveRun ss g ad) s \<longleftrightarrow> so = None \<and> confined i ad s"
| "worker_ok f i so (LeaveDrop ss g) s \<longleftrightarrow> so = None"
| "worker_ok f i so (LeaveRemove ss g) s \<longleftrightarrow> so = None"
| "worker_ok f i so (HelloAdmit h) s \<longleftrightarrow> so = None"
| "worker_ok f i so (HelloPool h) s \<longleftrightarrow> so = None"
| "worker_ok f i so (HelloFind h) s \<longleftrightarrow> so = None"
| "worker_ok f i so (HelloCreate h st n) s \<longleftrightarrow> so = None"
| "worker_ok f i so (HelloTry h st n c) s \<longleftrightarrow> so = None"
| "worker_ok f i so (HelloFallback h st) s \<longleftrightarrow> so = None"
| "worker_ok f i so (HelloInsert h st n) s \<longleftrightarrow> so = None"
| "worker_ok f i so (HelloLock h c ad) s \<longleftrightarrow> so = None \<and> room_named f (h_app_key h) c ad s"
| "worker_ok f i so (HelloRun h c ad) s \<longleftrightarrow> so = None \<and> room_named f (h_app_key h) c ad s"
| "worker_ok f i so (ActLookup ss m) s \<longleftrightarrow> so = Some ss"
| "worker_ok f i so (ActLock ss m ad) s \<longleftrightarrow> so = Some ss"
| "worker_ok f i so (ActRun ss m ad) s \<longleftrightarrow> so = Some ss"
| "worker_ok f i so (Reply ms) s \<longleftrightarrow> (\<forall>m \<in> set ms. no_password m)"
| "worker_ok f i so (ListNext v acc) s \<longleftrightarrow> (\<forall>e \<in> set acc. password (rle_settings e) = None)"
| "worker_ok f i so (ListRead v acc ad) s \<longleftrightarrow> (\<forall>e \<in> set acc. password (rle_settings e) = None)"
| "worker_ok f i so StatsBegin s \<longleftrightarrow> so = None"
| "worker_ok f i so (StatsApps sv) s \<longleftrightarrow> so = None"
| "worker_ok f i so (StatsRooms sv v c) s \<longleftrightarrow> so = None"
| "worker_ok f i so (StatsRead sv v c ad) s \<longleftrightarrow> so = None"
| "worker_ok f i so (StatsReply resp) s \<longleftrightarrow> so = None"
| "worker_ok f i so p s \<longleftrightarrow> True"

lemma worker_ok_evolves: "worker_ok f i so p s \<Longrightarrow> evolves X s s' \<Longrightarrow> i \<notin> X \<Longrightarrow> worker_ok f i so p s'"
  by (cases p) (auto intro: confined_evolves room_named_evolves)

lemma worker_ok_locked [simp]:
  "worker_ok f i so p (s\<lparr>locked := L\<rparr>) = worker_ok f i so p s"
  "worker_ok f i so p (release ad s) = worker_ok f i so p s"
  by (cases p; simp)+

text \<open>
  \<open>step_ok f sess i s wk s'\<close>: what every step of task \<open>i\<close> from \<open>s\<close> to the task \<open>wk\<close> and the store \<open>s'\<close>
  guarantees; \<open>sess\<close> are the claims before.
\<close>

definition step_ok ::
  "(string \<Rightarrow> string) \<Rightarrow> (conn_id \<Rightarrow> session option) \<Rightarrow> conn_id \<Rightarrow> server \<Rightarrow> worker option \<Rightarrow> server \<Rightarrow> bool" where
  "step_ok f sess i s wk s' \<longleftrightarrow>
     server_wf f s' \<and> evolves {i} s s' \<and> backed f (sess(i := Option.bind wk claim)) s' \<and>
     (\<forall>so p. wk = Some (so, p) \<longrightarrow> worker_ok f i so p s') \<and> spec_step (abs_members s) (abs_members s')"

text \<open>Steps that add no member and keep the claim.\<close>

lemma step_ok_quiet:
  assumes wf: "server_wf f s'" and ev: "evolves {} s s'" and b: "backed f sess s"
    and cl: "sess i = claim (so, p)" and ok: "worker_ok f i so p s'"
  shows "step_ok f sess i s (Some (so, p)) s'"
proof -
  have "sess(i := claim (so, p)) = sess" using cl by auto
  moreover have "backed f sess s'" by (rule backed_fewer [OF b evolves_fewer [OF ev]])
  moreover have "spec_step (abs_members s) (abs_members s')" by (intro lose abs_fewer evolves_fewer ev)
  ultimately show ?thesis using wf ev ok by (auto simp: step_ok_def intro: evolves_mono)
qed

lemma step_ok_store:
  assumes wf: "server_wf f s" and st: "store_step s s'" and b: "backed f sess s"
    and cl: "sess i = claim (so, p)" and ok: "worker_ok f i so p s'"
  shows "step_ok f sess i s (Some (so, p)) s'"
  by (rule step_ok_quiet [OF store_step_wf [OF wf st] evolves_store_step [OF st] b cl ok])

lemma step_ok_same:
  assumes "server_wf f s" and "backed f sess s" and "sess i = claim (so, p)" and "worker_ok f i so p s"
  shows "step_ok f sess i s (Some (so, p)) s"
  using assms by (intro step_ok_store store_step_refl)

lemma step_ok_acquire:
  assumes "server_wf f s" and "backed f sess s" and "sess i = claim wk" and "\<forall>so p. wk = (so, p) \<longrightarrow> worker_ok f i so p s"
    and "acquire ad wk s = Some (r, s')"
  shows "step_ok f sess i s r s'"
proof -
  have "r = Some wk" "s' = s\<lparr>locked := insert ad (locked s)\<rparr>" using assms(5) by (auto simp: acquire_def split: if_splits)
  moreover obtain so p where "wk = (so, p)" by fastforce
  ultimately show ?thesis
    using step_ok_same [of f s sess i so p] assms(1-4) by (simp add: step_ok_def)
qed

lemma step_ok_release [simp]: "step_ok f sess i s wk (release ad s') = step_ok f sess i s wk s'"
  by (simp add: step_ok_def)

text \<open>The end of a departure: nothing is claimed any more.\<close>

lemma step_ok_left:
  assumes wf: "server_wf f s" and st: "store_step s s'" and b: "backed f (sess(i := None)) s'"
  shows "step_ok f sess i s (finished None g) s'"
proof -
  note ev = evolves_store_step [OF st]
  have "Option.bind (finished None g) claim = None" by (cases g) simp_all
  moreover have "\<forall>so p. finished None g = Some (so, p) \<longrightarrow> worker_ok f i so p s'" by (cases g) simp_all
  moreover have "spec_step (abs_members s) (abs_members s')" by (intro lose abs_fewer evolves_fewer ev)
  ultimately show ?thesis
    using b store_step_wf [OF wf st] ev by (auto simp: step_ok_def intro: evolves_mono)
qed

section \<open>The steps\<close>

lemma leave_run_step:
  assumes wf: "server_wf f s" and b: "backed f sess s" and cl: "sess i = Some ss" and con: "confined i ad s"
    and s1_def: "s1 = with_room ad (leave_in_room w (s_peer_id ss)) s"
  shows "store_step s s1 \<and> backed f (sess(i := None)) s1"
proof -
  obtain r lg where run: "leave_in_room w (s_peer_id ss) (heap s ad, sends s) = (r, lg)" by fastforce
  have s1: "s1 = s\<lparr>heap := (heap s)(ad := r), sends := lg\<rparr>" by (simp add: s1_def with_room_def run)
  note w = server_wfD(1) [OF wf, of ad]
  have st: "store_step s s1"
    unfolding s1 using leave_in_room_keeps [OF w run]
    by (intro store_step_room [OF wf]) (simp_all add: log_step_def)
  have gone: "member_info r \<subseteq>\<^sub>m (member_info (heap s ad))(s_peer_id ss := None)"
    using leave_in_room_gone [OF w run] by (simp add: keeps_def member_info_remove_member)
  have "backed f (sess(i := None)) s1"
  proof (rule backedI')
    fix a k d pid info
    assume pl': "placed s1 a k d pid info"
    then have pl: "placed s a k d pid info" using evolves_store_step [OF st] by (auto simp: evolves_def)
    note sf = backedD' [OF b pl]
    have "tx info \<noteq> i"
    proof
      assume tx: "tx info = i"
      with con pl have "d = ad" by (simp add: confined_def)
      moreover have "pid = s_peer_id ss" using sf cl tx by (auto simp: session_for_def)
      ultimately show False using pl' gone by (auto simp: placed_def s1 map_le_def dom_def)
    qed
    with sf show "session_for f ((sess(i := None)) (tx info)) a k pid" by simp
  qed
  with st show ?thesis by blast
qed

text \<open>Joining a room that is registered, or one that no pool knows any more.\<close>

lemma hello_join_ok:
  assumes wf: "server_wf f s" and b: "backed f sess s" and cl: "sess i = None" and nm: "room_named f a c ad s"
    and run: "hello_join w a c ad i h d pw s = (out, so, s')"
  shows "step_ok f sess i s (Some (so, Reply out)) s'"
proof -
  have same: "sess(i := None) = sess" using cl by auto
  obtain res r lg where j: "join_room w c i h d pw (heap s ad, sends s) = (res, (r, lg))" by (metis surj_pair)
  have s': "s' = s\<lparr>heap := (heap s)(ad := r), sends := lg\<rparr>"
    using run j by (auto simp: hello_join_def Let_def split: sum.splits)
  note w = server_wfD(1) [OF wf, of ad]
  have out: "\<forall>m \<in> set out. no_password m" and ls: "log_step (sends s) lg" and rwf: "room_wf r"
    and id: "app_key r = app_key (heap s ad)" "code r = code (heap s ad)"
    and new: "\<And>pid info. member_info r pid = Some info \<Longrightarrow> tx info \<noteq> i \<Longrightarrow> member_info (heap s ad) pid = Some info"
  proof -
    have "(\<forall>m \<in> set out. no_password m) \<and> log_step (sends s) lg \<and> room_wf r \<and> app_key r = app_key (heap s ad) \<and>
      code r = code (heap s ad) \<and>
      (\<forall>pid info. member_info r pid = Some info \<longrightarrow> tx info \<noteq> i \<longrightarrow> member_info (heap s ad) pid = Some info)"
    proof (cases res)
      case (Inl e)
      from join_room_Inl [OF j [unfolded Inl]] obtain n where
        "r = heap s ad\<lparr>next_peer_id := n\<rparr>" "n = next_peer_id (heap s ad) \<or> n \<noteq> 0" "lg = sends s" by blast
      moreover have "out = [Error e]" using run j Inl by (auto simp: hello_join_def Let_def)
      ultimately show ?thesis using w by (auto simp: room_wf_def members_def client_ids_def pending_ids_def)
    next
      case (Inr x)
      obtain pid joined where x: "res = Inr (pid, joined)" using Inr by (cases x) auto
      note ji = join_room_Inr [OF w j [unfolded x]]
      from ji(4) obtain ex where ex: "lg = sends s @ ex" "log_msgs ex \<subseteq> {PeerJoined pid h d}" by blast
      have "no_password m" if "m \<in> log_msgs ex" for m using subsetD [OF ex(2) that] by simp
      moreover have "out = [joined]" using run j x by (auto simp: hello_join_def Let_def)
      ultimately show ?thesis
        using ji(1,3) ex(1) by (auto simp: admitted_def newcomer_def log_step_def split: if_splits)
    qed
    then show "\<forall>m \<in> set out. no_password m" "log_step (sends s) lg" "room_wf r" "app_key r = app_key (heap s ad)"
      "code r = code (heap s ad)"
      "\<And>pid info. member_info r pid = Some info \<Longrightarrow> tx info \<noteq> i \<Longrightarrow> member_info (heap s ad) pid = Some info"
      by blast+
  qed
  have wf': "server_wf f s'" using wf rwf id by (auto simp: server_wf_def s' registered_def)
  have reg_eq: "registered s' = registered s" by (simp add: fun_eq_iff registered_def s')
  have h: "heap s' = (heap s)(ad := r)" by (simp add: s')
  have ev: "evolves {i} s s'"
    using id ls new by (auto simp: evolves_def placed_def s' registered_def)
  show ?thesis
  proof (cases "\<exists>a k. registered s a k ad")
    case True
    then have reg: "registered s a (f (code_str c)) ad"
      using server_wfD(3) [OF wf] nm by (auto simp: room_named_def)
    have bs: "backed f (sess(i := None)) s" by (simp only: same b)
    from hello_join_step [OF wf bs reg run] have b': "backed f (sess(i := so)) s'" by blast
    have "i \<notin> ran (abs_members s)" by (rule backed_not_in_ran [where sess = sess, OF b cl])
    with hello_join_enters [OF wf reg run] have "spec_step (abs_members s) (abs_members s')"
      by (auto intro: lose abs_fewer enter [OF map_le_refl])
    with wf' ev b' out show ?thesis by (simp add: step_ok_def)
  next
    case False
    then have pl: "placed s' b k e pid info = placed s b k e pid info" for b k e pid info
      using h by (cases "e = ad") (auto simp: placed_def reg_eq)
    have "backed f (sess(i := so)) s'"
    proof (rule backedI')
      fix b k e pid info
      assume "placed s' b k e pid info"
      then have "session_for f (sess (tx info)) b k pid" using backedD' [OF b] pl by blast
      with cl show "session_for f ((sess(i := so)) (tx info)) b k pid" by (auto simp: session_for_def)
    qed
    moreover have "spec_step (abs_members s) (abs_members s')"
      by (intro lose abs_fewer) (simp add: fewer_def placed_member_at pl)
    ultimately show ?thesis using wf' ev out by (simp add: step_ok_def)
  qed
qed

lemma insert_room_step:
  assumes wf: "server_wf f s" and f: "w_case_fold w = f" and run: "insert_room w a c st s = (res, s')"
  shows "server_wf f s' \<and> evolves {} s s' \<and> (\<forall>c' ad. res = Some (c', ad) \<longrightarrow> room_named f a c' ad s')"
proof (cases "registry s a")
  case None
  with run wf show ?thesis by (auto simp: insert_room_def evolves_def)
next
  case (Some p)
  obtain r p' s1 where ti: "try_insert_new_room w c st (p, s) = (r, p', s1)" by (metis surj_pair)
  have r: "res = r" "s' = put_pool a p' s1" using run Some ti by (auto simp: insert_room_def)
  have "put_pool a p s = s" using Some by (simp add: put_pool_def fun_upd_idem)
  moreover have "pool_app_key p = a" using server_wfD(2) [OF wf Some] by simp
  ultimately have cr: "created w st a s res s'" using created_try_insert [OF ti, of a] r by simp
  have "room_named f a c' ad s'" if "res = Some (c', ad)" for c' ad
    using cr that f by (auto simp: created_def room_named_def Room_new_def)
  with created_wf [OF wf cr f] evolves_created [OF wf cr] show ?thesis by blast
qed

lemma room_operation_act: "room_operation (act_in_room w pid m)"
proof (cases m)
  case (Move blob)
  show ?thesis unfolding Move act_in_room_eta by (rule room_operation_move)
next
  case (Input blob)
  show ?thesis unfolding Input act_in_room_eta by (rule room_operation_input)
next
  case (RoomControl rc)
  show ?thesis unfolding RoomControl act_in_room_eta by (rule room_operation_control)
next
  case RequestState
  show ?thesis unfolding RequestState act_in_room_eta by (rule room_operation_state)
qed (unfold_locales, auto simp: keeps_refl)

interpretation act_op: room_operation "act_in_room w pid m"
  by (rule room_operation_act)

lemma act_run_step:
  assumes wf: "server_wf f s" and run: "act_in_room w pid m (heap s ad, sends s) = (out, (r, lg))"
  shows "store_step s (s\<lparr>heap := (heap s)(ad := r), sends := lg\<rparr>)" and "\<forall>m \<in> set out. no_password m"
proof -
  note w = server_wfD(1) [OF wf, of ad]
  from act_op.act_log [OF w run] have "log_step (sends s) lg" and out: "\<forall>m \<in> set out. no_password m"
    by (auto simp: log_step_def)
  with store_step_room [OF wf act_op.act_keeps [OF w run]]
  show "store_step s (s\<lparr>heap := (heap s)(ad := r), sends := lg\<rparr>)" by blast
  show "\<forall>m \<in> set out. no_password m" by (rule out)
qed

lemma confined_lookup:
  assumes wf: "server_wf f s" and b: "backed f sess s" and f: "w_case_fold w = f"
    and cl: "sess i = Some ss" and look: "lookup_room w s (s_app_key ss) (s_room_code ss) = Some ad"
  shows "confined i ad s"
  unfolding confined_def
proof (intro allI impI)
  fix a k d pid info
  assume pl: "placed s a k d pid info" and tx: "tx info = i"
  from backedD' [OF b pl] tx cl have "s_app_key ss = a" "f (code_str (s_room_code ss)) = k"
    by (auto simp: session_for_def)
  with look lookup_registered [OF f] have "registered s a k ad" by simp
  with pl show "d = ad" by (auto simp: placed_def registered_def)
qed

lemma reply_step:
  assumes "server_wf f s" and "\<forall>m \<in> set ms. no_password m"
  shows "store_step s (reply w i ms s)"
proof -
  have "reply w i ms s = s\<lparr>heap := (heap s)(0 := heap s 0), sends := send_replies w i ms (sends s)\<rparr>"
    by (simp add: reply_def)
  moreover have "keeps (heap s 0) (heap s 0)" by (rule keeps_refl [OF server_wfD(1) [OF assms(1)]])
  moreover have "log_step (sends s) (send_replies w i ms (sends s))" by (rule send_replies_log) (use assms(2) in simp)
  ultimately show ?thesis using store_step_room [OF assms(1)] by metis
qed

lemma proceed_ok:
  assumes wf: "server_wf f s" and b: "backed f sess s" and cl: "sess i = claim (so, p)"
    and ok: "worker_ok f i so p s" and f: "w_case_fold w = f" and run: "proceed w sd i so p s = Some (wk, s')"
  shows "step_ok f sess i s wk s'"
proof (cases p)
  case Idle
  with run show ?thesis by simp
next
  case (LeaveLookup ss g)
  with ok have so: "so = None" by simp
  have cl': "sess i = Some ss" using cl LeaveLookup by simp
  show ?thesis
  proof (cases "lookup_room w s (s_app_key ss) (s_room_code ss)")
    case None
    then have "leave_room w (s_app_key ss) (s_room_code ss) (s_peer_id ss) s = s" by (simp add: leave_room_def)
    with backed_leave [OF b wf f, of i, OF cl'] have "backed f (sess(i := None)) s" by simp
    from step_ok_left [OF wf store_step_refl [OF wf] this] show ?thesis
      using run LeaveLookup None so by auto
  next
    case (Some ad)
    with run LeaveLookup have "wk = Some (None, LeaveLock ss g ad)" "s' = s" using so by auto
    moreover have "confined i ad s" by (rule confined_lookup [OF wf b f cl' Some])
    ultimately show ?thesis using step_ok_same [OF wf b] cl' by simp
  qed
next
  case (LeaveLock ss g ad)
  with run ok cl show ?thesis by (intro step_ok_acquire [OF wf b]) auto
next
  case (LeaveRun ss g ad)
  let ?s1 = "with_room ad (leave_in_room w (s_peer_id ss)) s"
  from ok LeaveRun have so: "so = None" and con: "confined i ad s" by simp_all
  have cl': "sess i = Some ss" using cl LeaveRun by simp
  have st: "store_step s ?s1" and b': "backed f (sess(i := None)) ?s1"
    using leave_run_step [OF wf b cl' con refl] by blast+
  from step_ok_left [OF wf st b'] have left: "step_ok f sess i s (finished None g') ?s1" for g' .
  then have "step_ok f sess i s (Some (None, LeaveDrop ss g)) ?s1"
    using left [of ThenReply] by (simp add: step_ok_def)
  with left run LeaveRun so show ?thesis by (auto simp: Let_def split: if_splits)
next
  case (LeaveDrop ss g)
  with ok cl have so: "so = None" and cl': "sess i = None" by simp_all
  have "sess(i := None) = sess" using cl' by auto
  with b have "backed f (sess(i := None)) s" by simp
  from step_ok_left [OF wf store_step_refl [OF wf] this] step_ok_same [OF wf b] show ?thesis
    using run LeaveDrop so cl' by (auto split: option.splits)
next
  case (LeaveRemove ss g)
  with ok cl have so: "so = None" and cl': "sess i = None" by simp_all
  let ?s1 = "drop_if_empty w (s_app_key ss) (s_room_code ss) s"
  have st: "store_step s ?s1" by (rule store_step_drop_if_empty [OF wf])
  have "sess(i := None) = sess" using cl' by auto
  with backed_store_step [OF b st] have "backed f (sess(i := None)) ?s1" by simp
  from step_ok_left [OF wf st this] run LeaveRemove so show ?thesis by auto
next
  case (HelloAdmit h)
  obtain res s1 where ad: "hello_admit w (h_app_key h) (h_room_code h) (h_client_hash h) (h_display_name h)
      (h_auth_token h) (h_password h) s = (res, s1)" by fastforce
  from step_ok_store [OF wf hello_admit_step [OF wf ad] b] show ?thesis
    using run HelloAdmit ad ok cl by (cases res) auto
next
  case (HelloPool h)
  from step_ok_store [OF wf ensure_pool_step [OF wf] b] show ?thesis
    using run HelloPool ok cl by auto
next
  case (HelloFind h)
  let ?a = "h_app_key h"
  from ok HelloFind have so: "so = None" by simp
  have cl': "sess i = None" using cl HelloFind so by simp
  show ?thesis
  proof (cases "registry s ?a")
    case None
    with run HelloFind cl' so step_ok_same [OF wf b] show ?thesis by auto
  next
    case (Some q)
    obtain st c where d: "default_room_settings_for_app w ?a (cache s) = (st, c)" by fastforce
    then have "cache_plain c" using cache_plain_defaults server_wfD(4) [OF wf] by blast
    note st = store_step_cache [OF wf this]
    show ?thesis
    proof (cases "code_str (h_room_code h) = []")
      case True
      with run HelloFind Some d so step_ok_store [OF wf st b] cl' show ?thesis by auto
    next
      case False
      show ?thesis
      proof (cases "get_room w q (h_room_code h)")
        case None
        with False run HelloFind Some so step_ok_same [OF wf b] cl' show ?thesis by auto
      next
        case g: (Some ad)
        then have "registered s ?a (f (code_str (h_room_code h))) ad"
          using Some f by (simp add: registered_def get_room_def code_key_def)
        then have "room_named f ?a (h_room_code h) ad s" using server_wfD(3) [OF wf] by (simp add: room_named_def)
        with g False run HelloFind Some so step_ok_same [OF wf b] cl' show ?thesis by auto
      qed
    qed
  qed
next
  case (HelloCreate h st n)
  from ok HelloCreate have so: "so = None" by simp
  have cl': "sess i = None" using cl HelloCreate so by simp
  show ?thesis
  proof (cases n)
    case 0
    with run HelloCreate so step_ok_same [OF wf b] cl' show ?thesis by auto
  next
    case (Suc m)
    let ?s = "s\<lparr>rng_pos := rng_pos s + ROOM_CODE_LEN\<rparr>"
    have "server_wf f ?s" using wf by simp
    moreover have "evolves {} s ?s" by (simp add: evolves_def)
    ultimately show ?thesis
      using run HelloCreate Suc so cl' step_ok_quiet [OF _ _ b] by (auto simp: random_code_def)
  qed
next
  case (HelloTry h st n c)
  obtain res s1 where ir: "insert_room w (h_app_key h) c st s = (res, s1)" by fastforce
  from insert_room_step [OF wf f ir] have r: "server_wf f s1" "evolves {} s s1"
    "\<forall>c' ad. res = Some (c', ad) \<longrightarrow> room_named f (h_app_key h) c' ad s1" by blast+
  from step_ok_quiet [OF r(1,2) b] show ?thesis
    using run HelloTry ir r(3) ok cl by (auto split: option.splits)
next
  case (HelloFallback h st)
  let ?s = "s\<lparr>fallback_counter := fallback_counter s + 1\<rparr>"
  have "server_wf f ?s" using wf by simp
  moreover have "evolves {} s ?s" by (simp add: evolves_def)
  ultimately show ?thesis using run HelloFallback ok cl step_ok_quiet [OF _ _ b] by auto
next
  case (HelloInsert h st n)
  obtain res s1 where ir: "insert_room w (h_app_key h) (fallback_code n) st s = (res, s1)" by fastforce
  from insert_room_step [OF wf f ir] have r: "server_wf f s1" "evolves {} s s1"
    "\<forall>c' ad. res = Some (c', ad) \<longrightarrow> room_named f (h_app_key h) c' ad s1" by blast+
  from step_ok_quiet [OF r(1,2) b] show ?thesis
    using run HelloInsert ir r(3) ok cl by (auto split: option.splits)
next
  case (HelloLock h c ad)
  with run ok cl show ?thesis by (intro step_ok_acquire [OF wf b]) auto
next
  case (HelloRun h c ad)
  obtain out so' s1 where j: "hello_join w (h_app_key h) c ad i (h_client_hash h) (h_display_name h) (h_password h) s
      = (out, so', s1)" by (metis surj_pair)
  have "step_ok f sess i s (Some (so', Reply out)) s1"
    by (rule hello_join_ok [OF wf b _ _ j]) (use cl ok HelloRun in simp_all)
  with run HelloRun j show ?thesis by auto
next
  case (ActLookup ss m)
  with run ok cl step_ok_same [OF wf b] show ?thesis by (auto split: option.splits)
next
  case (ActLock ss m ad)
  with run ok cl show ?thesis by (intro step_ok_acquire [OF wf b]) auto
next
  case (ActRun ss m ad)
  obtain out r lg where a: "act_in_room w (s_peer_id ss) m (heap s ad, sends s) = (out, (r, lg))" by (metis surj_pair)
  from step_ok_store [OF wf act_run_step(1) [OF wf a] b] act_run_step(2) [OF wf a] show ?thesis
    using run ActRun a ok cl by auto
next
  case (ListApp a)
  obtain r c where ir: "is_registered_app w a (cache s) = (r, c)" by fastforce
  then have "cache_plain c" using cache_plain_registered server_wfD(4) [OF wf] by blast
  from step_ok_store [OF wf store_step_cache [OF wf this] b] show ?thesis
    using run ListApp ir ok cl by auto
next
  case (ListPool a)
  have "no_password (RoomList [])" by (simp add: no_password_def)
  with run ListPool cl step_ok_same [OF wf b] show ?thesis by (auto split: option.splits)
next
  case (ListNext v acc)
  obtain a n ks ns where v: "v = Visit a n ks ns" by (cases v) simp
  consider "ks = []" "ns = []" | n' ns' where "ks = []" "ns = n' # ns'" | k ks' where "ks = k # ks'"
    by (cases ks; cases ns) auto
  then show ?thesis
  proof cases
    case 1
    have "no_password (RoomList acc)" using ok ListNext by (simp add: no_password_def)
    with run ListNext v 1 cl step_ok_same [OF wf b] show ?thesis by auto
  next
    case 2
    with run ListNext v ok cl step_ok_same [OF wf b] show ?thesis by auto
  next
    case 3
    show ?thesis
    proof (cases "room_at s a k")
      case None
      with run ListNext v 3 ok cl step_ok_same [OF wf b] show ?thesis by auto
    next
      case (Some ad)
      with run ListNext v 3 ok cl show ?thesis by (intro step_ok_acquire [OF wf b]) auto
    qed
  qed
next
  case (ListRead v acc ad)
  have "\<forall>e \<in> set (list_entry (heap s ad) acc). password (rle_settings e) = None"
    using ok ListRead by (auto simp: list_entry_def room_entry_def)
  with run ListRead cl step_ok_same [OF wf b] show ?thesis by auto
next
  case StatsBegin
  with run ok cl step_ok_same [OF wf b] show ?thesis by auto
next
  case (StatsApps sv)
  obtain m aps ms gs where sv: "sv = Survey m aps ms gs" by (cases sv) simp
  with run StatsApps ok cl step_ok_same [OF wf b] show ?thesis by (cases aps; cases ms) auto
next
  case (StatsRooms sv v c)
  obtain m aps ms gs where sv: "sv = Survey m aps ms gs" by (cases sv) simp
  obtain a n ks ns where v: "v = Visit a n ks ns" by (cases v) simp
  show ?thesis
  proof (cases ks)
    case Nil
    with run StatsRooms sv v ok cl step_ok_same [OF wf b] show ?thesis by (cases ns) auto
  next
    case (Cons k ks')
    show ?thesis
    proof (cases "room_at s a k")
      case None
      with run StatsRooms sv v Cons ok cl step_ok_same [OF wf b] show ?thesis by auto
    next
      case (Some ad)
      with run StatsRooms sv v Cons ok cl show ?thesis by (intro step_ok_acquire [OF wf b]) auto
    qed
  qed
next
  case (StatsRead sv v c ad)
  with run ok cl step_ok_same [OF wf b] show ?thesis by auto
next
  case (StatsReply resp)
  with run ok cl have wk: "wk = finished None ThenEnd" "s' = s" and cl': "sess i = None" by simp_all
  have "sess(i := None) = sess" using cl' by auto
  with b have "backed f (sess(i := None)) s" by simp
  from step_ok_left [OF wf store_step_refl [OF wf] this] show ?thesis unfolding wk .
next
  case (Reply ms)
  with run ok cl step_ok_store [OF wf reply_step [OF wf] b] show ?thesis by auto
qed

lemmas advance_ok = proceed_ok [OF _ _ _ _ _ advance_proceed]

section \<open>The invariant\<close>

definition tasks_inv :: "(string \<Rightarrow> string) \<Rightarrow> tasks \<Rightarrow> bool" where
  "tasks_inv f y \<longleftrightarrow>
     server_wf f (store y) \<and> backed f (claim_of y) (store y) \<and> log_clean (store y) \<and>
     (\<forall>i so p. workers y i = Some (so, p) \<longrightarrow> i < next_worker y \<and> worker_ok f i so p (store y))"

lemma claim_of_upd [simp]:
  "claim_of (y\<lparr>workers := (workers y)(i := x)\<rparr>) = (claim_of y)(i := Option.bind x claim)"
  "claim_of (y\<lparr>store := s, workers := (workers y)(i := x)\<rparr>) = (claim_of y)(i := Option.bind x claim)"
  "claim_of (y\<lparr>workers := (workers y)(i := x), next_worker := n\<rparr>) = (claim_of y)(i := Option.bind x claim)"
  by (auto simp: claim_of_def fun_eq_iff)

text \<open>A task whose program counter changes without access to the store.\<close>

lemma tasks_inv_local:
  assumes inv: "tasks_inv f y" and cl: "Option.bind wk claim = claim_of y i"
    and ok: "\<forall>so p. wk = Some (so, p) \<longrightarrow> i < n \<and> worker_ok f i so p (store y)" and n: "next_worker y \<le> n"
  shows "tasks_inv f (y\<lparr>workers := (workers y)(i := wk), next_worker := n\<rparr>)"
proof -
  have "(claim_of y)(i := Option.bind wk claim) = claim_of y" using cl by auto
  moreover have "j < n" if "j < next_worker y" for j using that n by simp
  ultimately show ?thesis using inv ok by (auto simp: tasks_inv_def)
qed

lemma begin_message_claim: "claim (begin_message so msg) = so"
  by (cases so; cases msg) (auto simp: need_session_def split: room_control.splits)

lemma begin_message_ok: "begin_message so msg = (so', p) \<Longrightarrow> worker_ok f i so' p s"
  by (cases so; cases msg) (auto simp: need_session_def no_password_def split: room_control.splits)

lemma begin_close_claim: "Option.bind (begin_close so) claim = so"
  by (simp add: begin_close_def split: option.split)

lemma begin_close_ok: "begin_close so = Some (so', p) \<Longrightarrow> worker_ok f i so' p s"
  by (auto simp: begin_close_def split: option.splits)

lemma task_happens_inv:
  assumes inv: "tasks_inv f y" and f: "w_case_fold w = f" and hp: "task_happens w ev y = Some y'"
  shows "tasks_inv f y' \<and> spec_step (abs_members (store y)) (abs_members (store y'))"
proof (cases ev)
  case Open
  have fresh: "workers y (next_worker y) = None" using inv by (cases "workers y (next_worker y)") (auto simp: tasks_inv_def)
  have "tasks_inv f (y\<lparr>workers := (workers y)(next_worker y := Some (None, Idle)), next_worker := Suc (next_worker y)\<rparr>)"
    by (rule tasks_inv_local [OF inv]) (simp_all add: claim_of_def fresh)
  with hp Open show ?thesis by auto
next
  case Request
  have fresh: "workers y (next_worker y) = None" using inv by (cases "workers y (next_worker y)") (auto simp: tasks_inv_def)
  have "tasks_inv f (y\<lparr>workers := (workers y)(next_worker y := Some (None, StatsBegin)), next_worker := Suc (next_worker y)\<rparr>)"
    by (rule tasks_inv_local [OF inv]) (simp_all add: claim_of_def fresh)
  with hp Request show ?thesis by auto
next
  case (Receive i msg)
  with hp obtain so where wk: "workers y i = Some (so, Idle)"
    and y': "y' = y\<lparr>workers := (workers y)(i := Some (begin_message so msg))\<rparr>"
    by (blast elim: task_receiveE)
  have "tasks_inv f (y\<lparr>workers := (workers y)(i := Some (begin_message so msg)), next_worker := next_worker y\<rparr>)"
    using inv wk begin_message_ok [of so msg]
    by (intro tasks_inv_local) (auto simp: claim_of_def begin_message_claim tasks_inv_def)
  then show ?thesis by (simp add: y')
next
  case (Hangup i)
  with hp obtain so where wk: "workers y i = Some (so, Idle)"
    and y': "y' = y\<lparr>workers := (workers y)(i := begin_close so)\<rparr>"
    by (blast elim: task_hangupE)
  have "tasks_inv f (y\<lparr>workers := (workers y)(i := begin_close so), next_worker := next_worker y\<rparr>)"
    using inv wk begin_close_ok [of so]
    by (intro tasks_inv_local) (auto simp: claim_of_def begin_close_claim tasks_inv_def)
  then show ?thesis by (simp add: y')
next
  case (Advance i)
  with hp obtain so p wk s' where wk: "workers y i = Some (so, p)" and adv: "advance w (sharding y) (busy_shards y) i so p (store y) = Some (wk, s')"
    and y': "y' = y\<lparr>store := s', workers := (workers y)(i := wk)\<rparr>"
    by (blast elim: task_advanceE)
  have cl: "claim_of y i = claim (so, p)" using wk by (simp add: claim_of_def)
  have "step_ok f (claim_of y) i (store y) wk s'"
    by (rule advance_ok [where sess = "claim_of y", OF _ _ cl _ f adv]) (use inv wk in \<open>auto simp: tasks_inv_def\<close>)
  then have st: "server_wf f s'" "evolves {i} (store y) s'" "backed f ((claim_of y)(i := Option.bind wk claim)) s'"
    "\<forall>so p. wk = Some (so, p) \<longrightarrow> worker_ok f i so p s'" "spec_step (abs_members (store y)) (abs_members s')"
    by (auto simp: step_ok_def)
  have "log_clean s'" using inv st(2) log_clean_step by (auto simp: tasks_inv_def evolves_def)
  moreover have "j < next_worker y \<and> worker_ok f j so' p' s'" if "workers y' j = Some (so', p')" for j so' p'
  proof (cases "j = i")
    case True
    with that st(4) inv wk y' show ?thesis by (auto simp: tasks_inv_def)
  next
    case False
    with that y' inv have "j < next_worker y" "worker_ok f j so' p' (store y)" by (auto simp: tasks_inv_def)
    with False worker_ok_evolves [OF _ st(2)] show ?thesis by blast
  qed
  ultimately show ?thesis using st(1,3,5) by (simp add: tasks_inv_def y')
qed

lemma tasks_reachable_inv: "tasks_reachable f y \<Longrightarrow> tasks_inv f y"
proof (induction rule: tasks_reachable.induct)
  case (init sd f w)
  have "sys_inv f (system_init w)" by (rule sys_inv_init)
  then show ?case by (simp add: tasks_inv_def tasks_init_def sys_inv_def system_init_def claim_of_def backed_def
      registered_def server_init_def)
next
  case (more f y y')
  then show ?case using task_happens_inv by (auto elim!: task_stepE)
qed

lemma task_step_spec:
  "tasks_reachable f y \<Longrightarrow> task_step f y y' \<Longrightarrow> spec_step (abs_members (store y)) (abs_members (store y'))"
  using task_happens_inv [OF tasks_reachable_inv] by (auto elim!: task_stepE)

end
