(* ===== verification/Task_Progress.thy ===== *)
theory Task_Progress
  imports Task_Invariant
begin

text \<open>
  Locks and progress.  A mutex is held by exactly the task whose program counter says so.  The locks are
  taken in an order, the registry's shards, a pool's shards, the mutex of a room, so that the tasks that
  wait for each other form chains that end in a task which can step; and the steps
  that tasks take on their own come to an end, so every message is handled in the end.
\<close>

section \<open>The mutexes\<close>

definition wk_holding :: "worker option \<Rightarrow> addr option" where
  "wk_holding wk = Option.bind wk (\<lambda>(so, p). holding p)"

lemma wk_holding_simps [simp]:
  "wk_holding None = None" "wk_holding (Some (so, p)) = holding p" "wk_holding (finished so g) = None"
  by (simp_all add: wk_holding_def) (cases g; simp)

lemma locked_hello_admit: "hello_admit w a rc h d t pw s = (res, s') \<Longrightarrow> locked s' = locked s"
  by (auto simp: hello_admit_def Let_def split: sum.splits if_splits prod.splits)

lemma locked_hello_join: "hello_join w a c ad i h d pw s = (out, so, s') \<Longrightarrow> locked s' = locked s"
  by (auto simp: hello_join_def Let_def split: sum.splits prod.splits)

lemma locked_insert_room: "insert_room w a c st s = (res, s') \<Longrightarrow> locked s' = locked s"
  by (auto simp: insert_room_def try_insert_new_room_def Let_def split: option.splits)

lemma locked_create_room: "create_room w st req (p, s) = (res, p', s') \<Longrightarrow> pool_app_key p = a \<Longrightarrow> locked s' = locked s"
  using created_create_room [of w st req p s res p' s' a] by (simp add: created_def)

lemma locked_simps [simp]:
  "locked (ensure_pool a s) = locked s" "locked (drop_if_empty w a c s) = locked s"
  "locked (with_room ad g s) = locked s" "locked (reply w i ms s) = locked s"
  "locked (release ad s) = locked s - {ad}"
  by (simp_all add: ensure_pool_def drop_if_empty_def with_room_def reply_def release_def
      split: option.split prod.split)

lemma locked_hello_room:
  assumes "hello_room w a rc s = (res, s')"
  shows "locked s' = locked s"
proof -
  obtain p where p: "registry (ensure_pool a s) a = Some p"
    by (cases "registry s a") (auto simp: ensure_pool_def)
  from assms hello_room_ensured [OF p, of w rc] show ?thesis
    by (auto dest!: locked_create_room split: if_splits option.splits prod.splits)
qed

text \<open>A step gives up the mutex the task held, and takes one only if it is free.\<close>

lemma acquire_Some: "acquire ad wk s = Some (r, s') \<longleftrightarrow>
    ad \<notin> locked s \<and> r = Some wk \<and> s' = s\<lparr>locked := insert ad (locked s)\<rparr>"
  by (auto simp: acquire_def)

definition lock_step :: "addr option \<Rightarrow> server \<Rightarrow> worker option \<Rightarrow> server \<Rightarrow> bool" where
  "lock_step h s wk s' \<longleftrightarrow>
     locked s' = locked s - set_option h \<union> set_option (wk_holding wk) \<and> set_option (wk_holding wk) \<inter> locked s = {}"

lemma lock_step_none: "locked s' = locked s \<Longrightarrow> wk_holding wk = None \<Longrightarrow> lock_step None s wk s'"
  by (simp add: lock_step_def)

lemma lock_step_release: "locked s1 = locked s \<Longrightarrow> wk_holding wk = None \<Longrightarrow> lock_step (Some ad) s wk (release ad s1)"
  by (simp add: lock_step_def)

lemma lock_step_acquire:
  "acquire ad (so, q) s = Some (wk, s') \<Longrightarrow> holding q = Some ad \<Longrightarrow> lock_step None s wk s'"
  by (auto simp: lock_step_def acquire_Some)

lemma proceed_locks:
  assumes "proceed w sd i so p s = Some (wk, s')"
  shows "lock_step (holding p) s wk s'"
proof (cases p)
  case Idle
  with assms show ?thesis by simp
next
  case (LeaveLookup ss g)
  with assms show ?thesis by (cases "lookup_room w s (s_app_key ss) (s_room_code ss)") (auto intro: lock_step_none)
next
  case (LeaveRun ss g ad)
  with assms show ?thesis by (auto simp: Let_def intro!: lock_step_release)
next
  case (LeaveDrop ss g)
  with assms show ?thesis by (cases "registry s (s_app_key ss)") (auto intro!: lock_step_none)
next
  case (LeaveRemove ss g)
  with assms show ?thesis by (auto intro!: lock_step_none)
next
  case (HelloAdmit h)
  obtain res s1 where ad: "hello_admit w (h_app_key h) (h_room_code h) (h_client_hash h) (h_display_name h)
      (h_auth_token h) (h_password h) s = (res, s1)" by fastforce
  show ?thesis using assms HelloAdmit ad locked_hello_admit [OF ad]
    by (cases res) (auto intro!: lock_step_none)
next
  case (HelloPool h)
  with assms show ?thesis by (auto intro!: lock_step_none)
next
  case (HelloFind h)
  have "locked s' = locked s \<and> wk_holding wk = None"
    using assms HelloFind
    by (cases "registry s (h_app_key h)"; cases "default_room_settings_for_app w (h_app_key h) (cache s)")
      (auto split: option.splits if_splits)
  with HelloFind show ?thesis by (simp add: lock_step_none)
next
  case (HelloCreate h st n)
  show ?thesis
  proof (cases n)
    case 0
    with assms HelloCreate show ?thesis by (auto intro: lock_step_none)
  next
    case (Suc m)
    with assms HelloCreate show ?thesis by (auto simp: random_code_def intro!: lock_step_none)
  qed
next
  case (HelloTry h st n c)
  obtain res s2 where ir: "insert_room w (h_app_key h) c st s = (res, s2)" by fastforce
  have "s' = s2 \<and> wk_holding wk = None" using assms HelloTry ir by (cases res) auto
  with locked_insert_room [OF ir] show ?thesis using HelloTry by (simp add: lock_step_none)
next
  case (HelloFallback h st)
  with assms show ?thesis by (auto intro!: lock_step_none)
next
  case (HelloInsert h st n)
  obtain res s2 where ir: "insert_room w (h_app_key h) (fallback_code n) st s = (res, s2)" by fastforce
  have "s' = s2 \<and> wk_holding wk = None" using assms HelloInsert ir by (cases res) auto
  with locked_insert_room [OF ir] show ?thesis using HelloInsert by (simp add: lock_step_none)
next
  case (HelloRun h c ad)
  obtain out so' s1 where j: "hello_join w (h_app_key h) c ad i (h_client_hash h) (h_display_name h) (h_password h) s
      = (out, so', s1)" by (metis surj_pair)
  show ?thesis using assms HelloRun j lock_step_release [OF locked_hello_join [OF j]] by auto
next
  case (ActLookup ss m)
  with assms show ?thesis by (cases "lookup_room w s (s_app_key ss) (s_room_code ss)") (auto intro: lock_step_none)
next
  case (ActRun ss m ad)
  with assms show ?thesis
    by (cases "act_in_room w (s_peer_id ss) m (heap s ad, sends s)") (auto intro!: lock_step_release)
next
  case (ListApp a)
  with assms show ?thesis by (cases "is_registered_app w a (cache s)") (auto intro!: lock_step_none)
next
  case (ListPool a)
  with assms show ?thesis by (cases "registry s a") (auto intro: lock_step_none)
next
  case (ListNext v acc)
  obtain a n ks ns where v: "v = Visit a n ks ns" by (cases v) simp
  show ?thesis
  proof (cases ks)
    case Nil
    with assms ListNext v show ?thesis by (cases ns) (auto intro: lock_step_none)
  next
    case (Cons k ks')
    with assms ListNext v show ?thesis
      by (cases "room_at s a k") (auto intro: lock_step_none lock_step_acquire)
  qed
next
  case (ListRead v acc ad)
  with assms show ?thesis by (auto intro!: lock_step_release)
next
  case (StatsApps sv)
  obtain m aps ms gs where sv: "sv = Survey m aps ms gs" by (cases sv) simp
  with assms StatsApps show ?thesis by (cases aps; cases ms) (auto intro!: lock_step_none)
next
  case (StatsRooms sv v c)
  obtain m aps ms gs where sv: "sv = Survey m aps ms gs" by (cases sv) simp
  obtain a n ks ns where v: "v = Visit a n ks ns" by (cases v) simp
  show ?thesis
  proof (cases ks)
    case Nil
    with assms StatsRooms sv v show ?thesis by (cases ns) (auto intro: lock_step_none)
  next
    case (Cons k ks')
    with assms StatsRooms sv v show ?thesis
      by (cases "room_at s a k") (auto intro: lock_step_none lock_step_acquire)
  qed
next
  case (StatsRead sv v c ad)
  with assms show ?thesis by (auto intro!: lock_step_release)
next
  case StatsBegin
  with assms show ?thesis by (auto intro: lock_step_none)
next
  case (StatsReply resp)
  with assms show ?thesis by (auto intro: lock_step_none)
next
  case (Reply ms)
  with assms show ?thesis by (auto intro!: lock_step_none)
qed (use assms in \<open>auto intro: lock_step_acquire\<close>)

lemmas advance_locks = proceed_locks [OF advance_proceed]

definition lock_inv :: "tasks \<Rightarrow> bool" where
  "lock_inv y \<longleftrightarrow> finite (dom (workers y)) \<and>
     (\<forall>ad. ad \<in> locked (store y) \<longleftrightarrow> (\<exists>i. holder y i ad)) \<and>
     (\<forall>i j ad. holder y i ad \<longrightarrow> holder y j ad \<longrightarrow> i = j)"

lemma holder_wk: "holder y i ad \<longleftrightarrow> wk_holding (workers y i) = Some ad"
  by (auto simp: holder_def wk_holding_def bind_eq_Some_conv)

text \<open>A task that comes, goes or starts on a message holds nothing before or after.\<close>

lemma lock_inv_local:
  assumes "lock_inv y" and "store y' = store y" and "workers y' = (workers y)(i := wk)"
    and "wk_holding (workers y i) = None" and "wk_holding wk = None"
  shows "lock_inv y'"
proof -
  have "holder y' j ad \<longleftrightarrow> holder y j ad" for j ad using assms(3-5) by (simp add: holder_wk)
  with assms(1-3) show ?thesis by (simp add: lock_inv_def)
qed

lemma begin_holding: "wk_holding (Some (begin_message so msg)) = None" "wk_holding (begin_close so) = None"
proof -
  show "wk_holding (Some (begin_message so msg)) = None"
    by (cases so; cases msg) (auto simp: need_session_def split: room_control.splits)
  show "wk_holding (begin_close so) = None" by (simp add: begin_close_def split: option.split)
qed

lemma task_happens_locks:
  assumes inv: "lock_inv y" and fresh: "workers y (next_worker y) = None" and hp: "task_happens w ev y = Some y'"
  shows "lock_inv y'"
proof (cases ev)
  case Open
  with hp fresh show ?thesis by (intro lock_inv_local [OF inv]) auto
next
  case Request
  with hp fresh show ?thesis by (intro lock_inv_local [OF inv]) auto
next
  case (Receive i msg)
  with hp obtain so where "workers y i = Some (so, Idle)" "y' = y\<lparr>workers := (workers y)(i := Some (begin_message so msg))\<rparr>"
    by (blast elim: task_receiveE)
  then show ?thesis using begin_holding(1) by (intro lock_inv_local [OF inv]) auto
next
  case (Hangup i)
  with hp obtain so where "workers y i = Some (so, Idle)" "y' = y\<lparr>workers := (workers y)(i := begin_close so)\<rparr>"
    by (blast elim: task_hangupE)
  then show ?thesis using begin_holding(2) by (intro lock_inv_local [OF inv]) auto
next
  case (Advance i)
  with hp obtain so p wk s' where wk: "workers y i = Some (so, p)" and adv: "advance w (sharding y) (busy_shards y) i so p (store y) = Some (wk, s')"
    and y': "y' = y\<lparr>store := s', workers := (workers y)(i := wk)\<rparr>"
    by (blast elim: task_advanceE)
  have l: "locked s' = locked (store y) - set_option (holding p) \<union> set_option (wk_holding wk)"
    "set_option (wk_holding wk) \<inter> locked (store y) = {}"
    using advance_locks [OF adv] by (simp_all add: lock_step_def)
  have h: "holder y' j ad \<longleftrightarrow> (if j = i then wk_holding wk = Some ad else holder y j ad)" for j ad
    by (simp add: holder_wk y')
  have mine: "holder y i ad \<longleftrightarrow> holding p = Some ad" for ad by (simp add: holder_wk wk)
  have iff: "ad \<in> locked (store y) \<longleftrightarrow> (\<exists>j. holder y j ad)" for ad using inv by (simp add: lock_inv_def)
  have uniq: "holder y j ad \<Longrightarrow> holder y k ad \<Longrightarrow> j = k" for j k ad using inv by (simp add: lock_inv_def)
  have "ad \<in> locked s' \<longleftrightarrow> (\<exists>j. holder y' j ad)" for ad
  proof
    assume "ad \<in> locked s'"
    with l consider "wk_holding wk = Some ad" | "ad \<in> locked (store y)" "holding p \<noteq> Some ad" by auto
    then show "\<exists>j. holder y' j ad"
    proof cases
      case 1
      then show ?thesis by (intro exI [of _ i]) (simp add: h)
    next
      case 2
      then obtain j where "holder y j ad" "j \<noteq> i" using iff mine by metis
      then show ?thesis by (intro exI [of _ j]) (simp add: h)
    qed
  next
    assume "\<exists>j. holder y' j ad"
    then obtain j where j: "holder y' j ad" by blast
    show "ad \<in> locked s'"
    proof (cases "j = i")
      case True
      with j l show ?thesis by (simp add: h)
    next
      case False
      with j have "holder y j ad" by (simp add: h)
      moreover from this False have "holding p \<noteq> Some ad" using uniq mine by blast
      ultimately show ?thesis using l iff by auto
    qed
  qed
  moreover have "j = k" if "holder y' j ad" "holder y' k ad" for j k ad
  proof -
    have "ad \<notin> locked (store y)" if "wk_holding wk = Some ad" using l that by auto
    then have "\<not> holder y m ad" if "wk_holding wk = Some ad" for m using iff that by blast
    with that uniq show ?thesis by (auto simp: h split: if_splits)
  qed
  ultimately show ?thesis using inv by (simp add: lock_inv_def y')
qed

lemma tasks_reachable_locks: "tasks_reachable f y \<Longrightarrow> lock_inv y"
proof (induction rule: tasks_reachable.induct)
  case (init sd f w)
  show ?case by (simp add: lock_inv_def tasks_init_def server_init_def holder_def)
next
  case (more f y y')
  have "workers y (next_worker y) = None"
    using tasks_reachable_inv [OF more.hyps(1)] by (cases "workers y (next_worker y)") (auto simp: tasks_inv_def)
  with more show ?case by (auto elim!: task_stepE intro: task_happens_locks)
qed

section \<open>No deadlock\<close>

text \<open>The mutex a task waits for.\<close>

fun wanted :: "server \<Rightarrow> pc \<Rightarrow> addr option" where
  "wanted s (LeaveLock ss g ad) = Some ad"
| "wanted s (HelloLock h c ad) = Some ad"
| "wanted s (ActLock ss m ad) = Some ad"
| "wanted s (ListNext (Visit a n (k # ks) ns) acc) = room_at s a k"
| "wanted s (StatsRooms sv (Visit a n (k # ks) ns) c) = room_at s a k"
| "wanted s _ = None"

lemma visit_cases:
  obtains a n where "v = Visit a n [] []" | a n n' ns where "v = Visit a n [] (n' # ns)"
  | a n k ks ns where "v = Visit a n (k # ks) ns"
proof (cases v)
  case (Visit a n ks ns)
  with that show ?thesis by (cases ks; cases ns) auto
qed

lemma survey_cases:
  obtains m gs where "sv = Survey m [] [] gs" | m m' ms gs where "sv = Survey m [] (m' # ms) gs"
  | m a aps ms gs where "sv = Survey m (a # aps) ms gs"
proof (cases sv)
  case (Survey m aps ms gs)
  with that show ?thesis by (cases aps; cases ms) auto
qed

lemma proceed_None:
  "proceed w sd i so p s = None \<longleftrightarrow> p = Idle \<or> (\<exists>ad \<in> locked s. wanted s p = Some ad)"
proof (cases p)
  case (ListNext v acc)
  then show ?thesis by (cases v rule: visit_cases) (auto simp: acquire_def split: option.split)
next
  case (HelloCreate h st n)
  then show ?thesis by (cases n) (auto split: prod.split)
next
  case (StatsApps sv)
  then show ?thesis by (cases sv rule: survey_cases) auto
next
  case (StatsRooms sv v c)
  then show ?thesis
    by (cases v rule: visit_cases; cases sv) (auto simp: acquire_def split: option.split)
qed (auto simp: acquire_def Let_def split: prod.split option.split sum.split)

text \<open>What a task holds and what its next step needs, as locks in their order.\<close>

datatype lock = Shard map_shard | Room_mutex addr

fun level :: "lock \<Rightarrow> nat" where
  "level (Shard (RegistryShard n)) = 0"
| "level (Shard (PoolShard a n)) = 1"
| "level (Room_mutex ad) = 2"

definition locks_held :: "sharding \<Rightarrow> pc \<Rightarrow> lock set" where
  "locks_held sd p = Shard ` guards sd p \<union> Room_mutex ` set_option (holding p)"

definition locks_wanted :: "world \<Rightarrow> sharding \<Rightarrow> server \<Rightarrow> pc \<Rightarrow> lock set" where
  "locks_wanted w sd s p = Shard ` set_option (write_shard w sd p) \<union> Room_mutex ` set_option (wanted s p)"

lemma lock_order: "l \<in> locks_held sd p \<Longrightarrow> l' \<in> locks_wanted w sd s p \<Longrightarrow> level l < level l'"
proof (cases p)
  case (ListNext v acc)
  then show "l \<in> locks_held sd p \<Longrightarrow> l' \<in> locks_wanted w sd s p \<Longrightarrow> level l < level l'"
    by (cases v rule: visit_cases) (auto simp: locks_held_def locks_wanted_def)
next
  case (StatsRooms sv v c)
  then show "l \<in> locks_held sd p \<Longrightarrow> l' \<in> locks_wanted w sd s p \<Longrightarrow> level l < level l'"
    by (cases v rule: visit_cases; cases sv) (auto simp: locks_held_def locks_wanted_def)
qed (auto simp: locks_held_def locks_wanted_def)

text \<open>Task \<open>i\<close> waits for task \<open>j\<close>, which holds a lock that its next step needs.\<close>

definition waits_for :: "(string \<Rightarrow> string) \<Rightarrow> tasks \<Rightarrow> conn_id \<Rightarrow> conn_id \<Rightarrow> bool" where
  "waits_for f y i j \<longleftrightarrow>
     (\<exists>w so p so' p' l. w_case_fold w = f \<and> workers y i = Some (so, p) \<and> workers y j = Some (so', p') \<and>
        l \<in> locks_wanted w (sharding y) (store y) p \<and> l \<in> locks_held (sharding y) p')"

lemma waits_forI:
  fixes w :: world
  shows "w_case_fold w = f \<Longrightarrow> workers y i = Some (so, p) \<Longrightarrow> workers y j = Some (so', p') \<Longrightarrow>
   l \<in> locks_wanted w (sharding y) (store y) p \<Longrightarrow> l \<in> locks_held (sharding y) p' \<Longrightarrow> waits_for f y i j"
  unfolding waits_for_def by blast

definition can_advance :: "(string \<Rightarrow> string) \<Rightarrow> conn_id \<Rightarrow> tasks \<Rightarrow> bool" where
  "can_advance f i y \<longleftrightarrow> (\<forall>w. w_case_fold w = f \<longrightarrow> (\<exists>y'. task_happens w (Advance i) y = Some y'))"

text \<open>What a step needs depends on the case folding only.\<close>

lemma write_shard_fold: "w_case_fold w = w_case_fold w' \<Longrightarrow> write_shard w sd p = write_shard w' sd p"
  by (cases p) (auto simp: code_key_def)

lemma busy_shards_iff:
  "(\<forall>i so p. workers y i = Some (so, p) \<longrightarrow> i < next_worker y) \<Longrightarrow>
   x \<in> busy_shards y \<longleftrightarrow> (\<exists>i so p. workers y i = Some (so, p) \<and> x \<in> guards (sharding y) p)"
  by (fastforce simp: busy_shards_def split: option.splits)

text \<open>A busy task can step or waits for another.\<close>

lemma advance_or_wait:
  assumes inv: "lock_inv y" and lt: "\<forall>i so p. workers y i = Some (so, p) \<longrightarrow> i < next_worker y"
    and wk: "workers y i = Some (so, p)" and busy: "p \<noteq> Idle"
  shows "can_advance f i y \<or> (\<exists>j. waits_for f y i j)"
proof (rule disjCI)
  assume no: "\<nexists>j. waits_for f y i j"
  show "can_advance f i y" unfolding can_advance_def
  proof (intro allI impI)
    fix w :: world
    assume f: "w_case_fold w = f"
    have "\<not> (\<exists>ad \<in> locked (store y). wanted (store y) p = Some ad)"
    proof
      assume "\<exists>ad \<in> locked (store y). wanted (store y) p = Some ad"
      then obtain ad where ad: "ad \<in> locked (store y)" "wanted (store y) p = Some ad" by blast
      with inv obtain j so' p' where j: "workers y j = Some (so', p')" "holding p' = Some ad"
        by (auto simp: lock_inv_def holder_def)
      have "waits_for f y i j"
        by (rule waits_forI [OF f wk j(1), where l = "Room_mutex ad"])
          (simp_all add: locks_wanted_def locks_held_def ad(2) j(2))
      with no show False by blast
    qed
    then have pr: "proceed w (sharding y) i so p (store y) \<noteq> None" using busy proceed_None by blast
    have "x \<notin> busy_shards y" if "write_shard w (sharding y) p = Some x" for x
    proof
      assume "x \<in> busy_shards y"
      then obtain j so' p' where j: "workers y j = Some (so', p')" "x \<in> guards (sharding y) p'"
        using busy_shards_iff [OF lt] by blast
      have "waits_for f y i j"
        by (rule waits_forI [OF f wk j(1), where l = "Shard x"]) (simp_all add: locks_wanted_def locks_held_def that j(2))
      with no show False by blast
    qed
    then have "advance w (sharding y) (busy_shards y) i so p (store y) = proceed w (sharding y) i so p (store y)"
      by (auto simp: advance_def split: option.split)
    with pr wk show "\<exists>y'. task_happens w (Advance i) y = Some y'" by (auto split: option.split prod.split)
  qed
qed

text \<open>The level of what a task waits for: it grows along a chain of waiting tasks.\<close>

definition wait_level :: "(string \<Rightarrow> string) \<Rightarrow> tasks \<Rightarrow> conn_id \<Rightarrow> nat" where
  "wait_level f y i =
     (case workers y i of
        None \<Rightarrow> 3
      | Some (so, p) \<Rightarrow>
          (case write_shard (quiet_world\<lparr>w_case_fold := f\<rparr>) (sharding y) p of
             Some x \<Rightarrow> level (Shard x)
           | None \<Rightarrow> if wanted (store y) p = None then 3 else 2))"

lemma wants_one: "write_shard w sd p = None \<or> wanted s p = None"
  by (cases p) auto

lemma wanted_level:
  assumes "w_case_fold w = f" and "workers y i = Some (so, p)" and "l \<in> locks_wanted w (sharding y) (store y) p"
  shows "wait_level f y i = level l"
proof -
  have "write_shard (quiet_world\<lparr>w_case_fold := f\<rparr>) (sharding y) p = write_shard w (sharding y) p"
    by (rule write_shard_fold) (simp add: assms(1))
  with assms wants_one [of w "sharding y" p "store y"] show ?thesis
    by (auto simp: wait_level_def locks_wanted_def)
qed

lemma level_less: "level l < 3"
  by (cases l rule: level.cases) auto

lemma waits_for_level: "waits_for f y i j \<Longrightarrow> wait_level f y i < wait_level f y j"
proof -
  assume "waits_for f y i j"
  then obtain w so p so' p' l where w: "w_case_fold w = f" "workers y i = Some (so, p)" "workers y j = Some (so', p')"
    and l: "l \<in> locks_wanted w (sharding y) (store y) p" "l \<in> locks_held (sharding y) p'"
    unfolding waits_for_def by blast
  have i: "wait_level f y i = level l" by (rule wanted_level [OF w(1,2) l(1)])
  show ?thesis
  proof (cases "locks_wanted w (sharding y) (store y) p' = {}")
    case True
    moreover have "write_shard (quiet_world\<lparr>w_case_fold := f\<rparr>) (sharding y) p' = write_shard w (sharding y) p'"
      by (rule write_shard_fold) (simp add: w(1))
    ultimately have "wait_level f y j = 3" using w(3) by (auto simp: wait_level_def locks_wanted_def)
    with i level_less show ?thesis by simp
  next
    case False
    then obtain l' where l': "l' \<in> locks_wanted w (sharding y) (store y) p'" by blast
    from wanted_level [OF w(1,3) l'] lock_order [OF l(2) l'] i show ?thesis by simp
  qed
qed

lemma waits_for_chain: "(waits_for f y)\<^sup>+\<^sup>+ i j \<Longrightarrow> wait_level f y i < wait_level f y j"
  by (induction rule: tranclp_induct) (auto dest: waits_for_level)

lemma wait_level_le: "wait_level f y i \<le> 3"
  using level_less less_imp_le by (auto simp: wait_level_def split: option.split)

text \<open>Whoever is waited for is busy, so the chain of waiting tasks ends in one that can step.\<close>

lemma waited_busy: "waits_for f y i j \<Longrightarrow> \<exists>so p. workers y j = Some (so, p) \<and> p \<noteq> Idle"
  by (fastforce simp: waits_for_def locks_held_def)

lemma chain_ends:
  assumes inv: "lock_inv y" and lt: "\<forall>i so p. workers y i = Some (so, p) \<longrightarrow> i < next_worker y"
    and "workers y i = Some (so, p)" and "p \<noteq> Idle"
  shows "\<exists>j. (waits_for f y)\<^sup>*\<^sup>* i j \<and> can_advance f j y"
  using assms(3,4)
proof (induction "3 - wait_level f y i" arbitrary: i so p rule: less_induct)
  case less
  show ?case
  proof (cases "can_advance f i y")
    case False
    with advance_or_wait [OF inv lt less.prems] obtain j where j: "waits_for f y i j" by blast
    from waited_busy [OF j] obtain so' p' where p': "workers y j = Some (so', p')" "p' \<noteq> Idle" by blast
    have "3 - wait_level f y j < 3 - wait_level f y i"
      using waits_for_level [OF j] wait_level_le [of f y j] by simp
    from less.hyps [OF this p'] j show ?thesis by (blast intro: converse_rtranclp_into_rtranclp)
  qed blast
qed

lemma tasks_lt: "tasks_reachable f y \<Longrightarrow> \<forall>i so p. workers y i = Some (so, p) \<longrightarrow> i < next_worker y"
  using tasks_reachable_inv by (auto simp: tasks_inv_def)

lemmas busy_chain_ends = chain_ends [OF tasks_reachable_locks tasks_lt]

section \<open>Every message is handled in the end\<close>

text \<open>
  What is left to do, most significant first: whether an iteration has yet to begin; the shards of the
  registry to visit; the apps to visit, and whether one is being visited; the shards of its pool to
  visit; the steps to come otherwise.
\<close>

type_synonym rank = "nat \<times> nat \<times> nat \<times> nat \<times> nat"

abbreviation steps :: "nat \<Rightarrow> rank" where "steps n \<equiv> (0, 0, 0, 0, n)"

fun rank :: "pc \<Rightarrow> rank" where
  "rank Idle = steps 0"
| "rank (Reply ms) = steps 1"
| "rank (HelloRun h c ad) = steps 2"
| "rank (HelloLock h c ad) = steps 3"
| "rank (HelloInsert h st n) = steps 4"
| "rank (HelloFallback h st) = steps 5"
| "rank (HelloCreate h st n) = steps (6 + 2 * n)"
| "rank (HelloTry h st n c) = steps (7 + 2 * n)"
| "rank (HelloFind h) = steps (7 + 2 * ROOM_CODE_GEN_RETRIES)"
| "rank (HelloPool h) = steps (8 + 2 * ROOM_CODE_GEN_RETRIES)"
| "rank (HelloAdmit h) = steps (9 + 2 * ROOM_CODE_GEN_RETRIES)"
| "rank (LeaveRemove ss g) = steps (10 + 2 * ROOM_CODE_GEN_RETRIES)"
| "rank (LeaveDrop ss g) = steps (11 + 2 * ROOM_CODE_GEN_RETRIES)"
| "rank (LeaveRun ss g ad) = steps (12 + 2 * ROOM_CODE_GEN_RETRIES)"
| "rank (LeaveLock ss g ad) = steps (13 + 2 * ROOM_CODE_GEN_RETRIES)"
| "rank (LeaveLookup ss g) = steps (14 + 2 * ROOM_CODE_GEN_RETRIES)"
| "rank (ActRun ss m ad) = steps 2"
| "rank (ActLock ss m ad) = steps 3"
| "rank (ActLookup ss m) = steps 4"
| "rank (ListRead (Visit a n ks ns) acc ad) = (0, 0, 0, length ns, 3 + 2 * length ks)"
| "rank (ListNext (Visit a n ks ns) acc) = (0, 0, 0, length ns, 2 + 2 * length ks)"
| "rank (ListPool a) = (1, 0, 0, 0, 0)"
| "rank (ListApp a) = (1, 0, 0, 0, 1)"
| "rank StatsBegin = (1, 0, 0, 0, 0)"
| "rank (StatsApps (Survey m aps ms gs)) = (0, length ms, 2 * length aps, 0, 2)"
| "rank (StatsRooms (Survey m aps ms gs) (Visit a n ks ns) c) =
     (0, length ms, 1 + 2 * length aps, length ns, 2 * length ks)"
| "rank (StatsRead (Survey m aps ms gs) (Visit a n ks ns) c ad) =
     (0, length ms, 1 + 2 * length aps, length ns, 1 + 2 * length ks)"
| "rank (StatsReply resp) = steps 1"

definition rank_less :: "(rank \<times> rank) set" where
  "rank_less = less_than <*lex*> less_than <*lex*> less_than <*lex*> less_than <*lex*> less_than"

lemma rank_less_iff [simp]:
  "((a, b, c, d, e), (a', b', c', d', e')) \<in> rank_less \<longleftrightarrow>
     a < a' \<or> a = a' \<and> (b < b' \<or> b = b' \<and> (c < c' \<or> c = c' \<and> (d < d' \<or> d = d' \<and> e < e')))"
  by (simp add: rank_less_def)

lemma wf_rank_less: "wf rank_less"
  by (simp add: rank_less_def wf_lex_prod)

lemma finished_rank: "finished so g = Some (so', q) \<Longrightarrow> rank q \<in> {steps 1, steps (9 + 2 * ROOM_CODE_GEN_RETRIES)}"
  by (cases g) auto

lemma acquire_worker: "acquire ad wk s = Some (x, s') \<Longrightarrow> x = Some wk"
  by (simp add: acquire_Some)

text \<open>Each step of a task that goes on lowers its rank.\<close>

lemma proceed_rank:
  assumes "proceed w sd i so p s = Some (Some (so', q), s')"
  shows "(rank q, rank p) \<in> rank_less"
proof (cases p)
  case (LeaveLookup ss g)
  with assms finished_rank [of so g so' q] show ?thesis
    by (cases "lookup_room w s (s_app_key ss) (s_room_code ss)") auto
next
  case (LeaveRun ss g ad)
  with assms finished_rank [of so g so' q] show ?thesis by (auto simp: Let_def split: if_splits)
next
  case (LeaveDrop ss g)
  with assms finished_rank [of so g so' q] show ?thesis by (auto split: option.splits)
next
  case (LeaveRemove ss g)
  with assms finished_rank [of so g so' q] show ?thesis by auto
next
  case (HelloAdmit h)
  with assms show ?thesis by (auto split: prod.splits sum.splits)
next
  case (HelloFind h)
  with assms show ?thesis
    by (cases "registry s (h_app_key h)"; cases "default_room_settings_for_app w (h_app_key h) (cache s)")
      (auto split: option.splits if_splits)
next
  case (HelloCreate h st n)
  with assms show ?thesis by (cases n) (auto split: prod.splits option.splits)
next
  case (HelloTry h st n c)
  with assms show ?thesis by (auto split: prod.splits option.splits)
next
  case (HelloInsert h st n)
  with assms show ?thesis by (auto split: prod.splits option.splits)
next
  case (HelloRun h c ad)
  with assms show ?thesis by (auto split: prod.splits)
next
  case (ActLookup ss m)
  with assms show ?thesis by (auto split: option.splits)
next
  case (ActRun ss m ad)
  with assms show ?thesis by (cases "act_in_room w (s_peer_id ss) m (heap s ad, sends s)") auto
next
  case (ListApp a)
  with assms show ?thesis by (auto split: prod.splits)
next
  case (ListPool a)
  with assms show ?thesis by (auto simp: visit_shard_def split: option.splits)
next
  case (ListNext v acc)
  with assms show ?thesis
    by (cases v rule: visit_cases) (auto simp: visit_shard_def split: option.splits dest!: acquire_worker)
next
  case (ListRead v acc ad)
  with assms show ?thesis by (cases v) auto
next
  case (StatsApps sv)
  with assms show ?thesis by (cases sv rule: survey_cases) (auto simp: visit_shard_def)
next
  case (StatsRooms sv v c)
  with assms show ?thesis
    by (cases v rule: visit_cases; cases sv) (auto simp: visit_shard_def split: option.splits dest!: acquire_worker)
next
  case (StatsRead sv v c ad)
  with assms show ?thesis by (cases v; cases sv) auto
qed (use assms in \<open>auto dest!: acquire_worker\<close>)

lemmas advance_rank = proceed_rank [OF advance_proceed]

text \<open>A step that some task takes on its own.\<close>

definition internal :: "(string \<Rightarrow> string) \<Rightarrow> tasks \<Rightarrow> tasks \<Rightarrow> bool" where
  "internal f y y' \<longleftrightarrow> (\<exists>w i. w_case_fold w = f \<and> task_happens w (Advance i) y = Some y')"

lemma internal_task_step: "internal f y y' \<Longrightarrow> task_step f y y'"
  by (auto simp: internal_def simp del: task_happens.simps intro: task_stepI)

lemma internal_reachable: "(internal f)\<^sup>*\<^sup>* y y' \<Longrightarrow> tasks_reachable f y \<Longrightarrow> tasks_reachable f y'"
  by (induction rule: rtranclp_induct) (auto intro: more internal_task_step)

definition work_left :: "tasks \<Rightarrow> rank multiset" where
  "work_left y = image_mset (\<lambda>i. rank (snd (the (workers y i)))) (mset_set (dom (workers y)))"

lemma internal_work_left:
  assumes "internal f y y'" and fin: "finite (dom (workers y))"
  shows "(work_left y', work_left y) \<in> mult rank_less"
proof -
  from assms(1) obtain w i so p wk s' where wk: "workers y i = Some (so, p)"
    and adv: "advance w (sharding y) (busy_shards y) i so p (store y) = Some (wk, s')"
    and y': "y' = y\<lparr>store := s', workers := (workers y)(i := wk)\<rparr>"
    unfolding internal_def by (blast elim: task_advanceE)
  let ?D = "dom (workers y) - {i}"
  let ?rest = "image_mset (\<lambda>j. rank (snd (the (workers y j)))) (mset_set ?D)"
  have "mset_set (dom (workers y)) = add_mset i (mset_set ?D)" using fin wk by (intro mset_set.remove) auto
  then have l: "work_left y = ?rest + {#rank p#}" by (simp add: work_left_def wk)
  have rest: "image_mset (\<lambda>j. rank (snd (the (((workers y)(i := wk)) j)))) (mset_set ?D) = ?rest"
    using fin by (intro image_mset_cong) auto
  show ?thesis
  proof (cases wk)
    case None
    then have "work_left y' = ?rest" using rest by (simp add: work_left_def y')
    then show ?thesis using one_step_implies_mult [of "{#rank p#}" "{#}" rank_less ?rest] l by simp
  next
    case (Some x)
    obtain so' q where x: "x = (so', q)" by fastforce
    have "dom (workers y') - {i} = ?D" "i \<in> dom (workers y')" "finite (dom (workers y'))"
      using Some fin by (auto simp: y')
    then have "mset_set (dom (workers y')) = add_mset i (mset_set ?D)" using mset_set.remove by metis
    with rest Some x have "work_left y' = ?rest + {#rank q#}" by (simp add: work_left_def y')
    moreover have "(rank q, rank p) \<in> rank_less" using adv Some x advance_rank by blast
    ultimately show ?thesis using one_step_implies_mult [of "{#rank p#}" "{#rank q#}" rank_less ?rest] l by simp
  qed
qed

lemma wf_internal: "wf {(y', y). tasks_reachable f y \<and> internal f y y'}"
proof (rule wf_subset)
  show "wf (inv_image (mult rank_less) work_left)" by (intro wf_inv_image wf_mult wf_rank_less)
  show "{(y', y). tasks_reachable f y \<and> internal f y y'} \<subseteq> inv_image (mult rank_less) work_left"
    using tasks_reachable_locks internal_work_left by (auto simp: lock_inv_def in_inv_image)
qed

definition all_idle :: "tasks \<Rightarrow> bool" where
  "all_idle y \<longleftrightarrow> (\<forall>i so p. workers y i = Some (so, p) \<longrightarrow> p = Idle)"

lemma can_advance_internal: "can_advance f i y \<Longrightarrow> \<exists>y'. internal f y y'"
proof -
  have "w_case_fold (quiet_world\<lparr>w_case_fold := f\<rparr>) = f" by simp
  then show "can_advance f i y \<Longrightarrow> \<exists>y'. internal f y y'" unfolding can_advance_def internal_def by blast
qed

lemma stuck_all_idle:
  assumes "tasks_reachable f y" and "\<nexists>y'. internal f y y'"
  shows "all_idle y \<and> locked (store y) = {}"
proof -
  have inv: "lock_inv y" by (rule tasks_reachable_locks [OF assms(1)])
  have "all_idle y" unfolding all_idle_def
  proof (intro allI impI, rule ccontr)
    fix i so p
    assume "workers y i = Some (so, p)" "p \<noteq> Idle"
    from busy_chain_ends [OF assms(1) assms(1) this, of f] show False using can_advance_internal assms(2) by blast
  qed
  moreover have "\<not> holder y i ad" for i ad
  proof
    assume "holder y i ad"
    then obtain so p where h: "workers y i = Some (so, p)" "holding p = Some ad" by (auto simp: holder_def)
    then have "p = Idle" using \<open>all_idle y\<close> by (simp add: all_idle_def)
    with h(2) show False by simp
  qed
  ultimately show ?thesis using inv by (auto simp: lock_inv_def)
qed

text \<open>From every reachable state the tasks can finish what they are doing.\<close>

lemma settles:
  assumes "tasks_reachable f y"
  shows "\<exists>y'. (internal f)\<^sup>*\<^sup>* y y' \<and> all_idle y' \<and> locked (store y') = {}"
  using wf_internal [of f] assms
proof (induction y rule: wf_induct_rule)
  case (less y)
  show ?case
  proof (cases "\<exists>y'. internal f y y'")
    case False
    with stuck_all_idle [OF less.prems] show ?thesis by blast
  next
    case True
    then obtain y1 where y1: "internal f y y1" by blast
    have "tasks_reachable f y1" by (rule more [OF less.prems internal_task_step [OF y1]])
    from less.IH [OF _ this] y1 less.prems obtain y' where
      "(internal f)\<^sup>*\<^sup>* y1 y'" "all_idle y'" "locked (store y') = {}" by blast
    with y1 show ?thesis by (blast intro: converse_rtranclp_into_rtranclp)
  qed
qed

end
