(* ===== verification/Task_Alone.thy ===== *)
theory Task_Alone
  imports Task_Progress
begin

text \<open>
  A task that runs without interruption, while no other task holds a mutex or reads a map, does what
  \<open>dispatch\<close>, and at the end of its connection \<open>close_connection\<close>, does as one function.  (A listing is
  left out: it visits the rooms shard by shard.)
\<close>

section \<open>Runs of one task\<close>

type_synonym alone_state = "worker option \<times> server"

inductive alone :: "world \<Rightarrow> sharding \<Rightarrow> conn_id \<Rightarrow> alone_state \<Rightarrow> alone_state \<Rightarrow> bool" for w sd i where
  rest [simp, intro!]: "alone w sd i x x"
| go: "proceed w sd i so p s = Some x \<Longrightarrow> alone w sd i x y \<Longrightarrow> alone w sd i (Some (so, p), s) y"

lemma alone_trans: "alone w sd i x y \<Longrightarrow> alone w sd i y z \<Longrightarrow> alone w sd i x z"
  by (induction rule: alone.induct) (auto intro: go)

lemma alone_step: "proceed w sd i so p s = Some x \<Longrightarrow> alone w sd i (Some (so, p), s) x"
  by (auto intro: go)

text \<open>Such a run is a run of the system of tasks, as long as nobody else reads a shard.\<close>

definition others_quiet :: "conn_id \<Rightarrow> tasks \<Rightarrow> bool" where
  "others_quiet i y \<longleftrightarrow> (\<forall>j so p. workers y j = Some (so, p) \<longrightarrow> j \<noteq> i \<longrightarrow> guards (sharding y) p = {})"

lemma advance_unhindered:
  assumes "proceed w (sharding y) i so p s = Some x" and "workers y i = Some (so, p)" and "others_quiet i y"
  shows "advance w (sharding y) (busy_shards y) i so p s = Some x"
proof -
  have "v \<in> guards (sharding y) p" if v: "v \<in> busy_shards y" for v
  proof -
    from v obtain j so' p' where "workers y j = Some (so', p')" "v \<in> guards (sharding y) p'"
      by (auto simp: busy_shards_def split: option.splits)
    with assms(2,3) show ?thesis by (cases "j = i") (auto simp: others_quiet_def)
  qed
  moreover have "v \<notin> guards (sharding y) p" if "write_shard w (sharding y) p = Some v" for v
    using lock_order [of "Shard v" "sharding y" p "Shard v" w s] that by (auto simp: locks_held_def locks_wanted_def)
  ultimately show ?thesis using assms(1) by (auto simp: advance_def split: option.split)
qed

lemma alone_internal:
  assumes "alone w sd i x x'" and "x = (workers y i, store y)" and "w_case_fold w = f"
    and "sharding y = sd" and "others_quiet i y"
  shows "(internal f)\<^sup>*\<^sup>* y (y\<lparr>store := snd x', workers := (workers y)(i := fst x')\<rparr>)"
  using assms
proof (induction arbitrary: y rule: alone.induct)
  case (rest x)
  then have eq: "y\<lparr>store := snd x, workers := (workers y)(i := fst x)\<rparr> = y" by simp
  show ?case by (simp only: eq rtranclp.rtrancl_refl)
next
  case (go so p s x z)
  let ?y = "y\<lparr>store := snd x, workers := (workers y)(i := fst x)\<rparr>"
  have wk: "workers y i = Some (so, p)" "store y = s" using go.prems(1) by simp_all
  have "advance w (sharding y) (busy_shards y) i so p (store y) = Some x"
    by (rule advance_unhindered [OF _ wk(1) go.prems(4)]) (simp add: go.hyps(1) go.prems(3) wk)
  then have "task_happens w (Advance i) y = Some ?y" using wk by (auto split: prod.split)
  then have "internal f y ?y" using go.prems(2) by (auto simp: internal_def simp del: task_happens.simps)
  moreover have "(internal f)\<^sup>*\<^sup>* ?y (?y\<lparr>store := snd z, workers := (workers ?y)(i := fst z)\<rparr>)"
    by (rule go.IH) (use go.prems in \<open>simp_all add: others_quiet_def\<close>)
  moreover have "?y\<lparr>store := snd z, workers := (workers ?y)(i := fst z)\<rparr> =
      y\<lparr>store := snd z, workers := (workers y)(i := fst z)\<rparr>" by simp
  ultimately show ?case by (simp only: converse_rtranclp_into_rtranclp)
qed

section \<open>Under a mutex\<close>

text \<open>Taking a free mutex, changing the room and the log, and releasing it.\<close>

lemma acquire_free: "ad \<notin> locked s \<Longrightarrow> acquire ad wk s = Some (Some wk, s\<lparr>locked := insert ad (locked s)\<rparr>)"
  by (simp add: acquire_def)

lemma release_acquired:
  "ad \<notin> locked s \<Longrightarrow> release ad (s\<lparr>locked := insert ad (locked s)\<rparr>) = s"
  "ad \<notin> locked s \<Longrightarrow>
   release ad (s\<lparr>locked := insert ad (locked s), heap := h, sends := lg\<rparr>) = s\<lparr>heap := h, sends := lg\<rparr>"
  by (simp_all add: release_def)

lemma with_room_locked:
  "with_room ad g (s\<lparr>locked := L\<rparr>) = (with_room ad g s)\<lparr>locked := L\<rparr>"
  by (simp add: with_room_def split: prod.split)

lemma release_with_room:
  "ad \<notin> locked s \<Longrightarrow> release ad ((with_room ad g s)\<lparr>locked := insert ad (locked s)\<rparr>) = with_room ad g s"
  by (simp add: release_def with_room_def split: prod.split)

lemma hello_join_locked:
  "hello_join w a c ad i h d pw s = (out, so, s') \<Longrightarrow>
   hello_join w a c ad i h d pw (s\<lparr>locked := L\<rparr>) = (out, so, s'\<lparr>locked := L\<rparr>)"
  by (auto simp: hello_join_def Let_def split: sum.splits prod.splits)

section \<open>Leaving\<close>

lemma alone_leave:
  assumes "locked s = {}"
  shows "alone w sd i (Some (so, LeaveLookup ss g), s)
    (finished so g, leave_room w (s_app_key ss) (s_room_code ss) (s_peer_id ss) s)"
proof (cases "lookup_room w s (s_app_key ss) (s_room_code ss)")
  case None
  then show ?thesis by (intro alone_step) (simp add: leave_room_def)
next
  case (Some ad)
  have free: "ad \<notin> locked s" by (simp add: assms)
  let ?s1 = "with_room ad (leave_in_room w (s_peer_id ss)) s"
  have rel: "release ad (with_room ad (leave_in_room w (s_peer_id ss)) (s\<lparr>locked := insert ad (locked s)\<rparr>)) = ?s1"
    by (simp only: with_room_locked release_with_room [OF free])
  have heap: "heap (with_room ad g (s\<lparr>locked := L\<rparr>)) = heap (with_room ad g s)" for g L
    by (simp only: with_room_locked) simp
  have "alone w sd i (Some (so, LeaveLookup ss g), s)
      (if room_is_empty (heap ?s1 ad) then Some (so, LeaveDrop ss g) else finished so g, ?s1)"
    using Some free by (auto intro!: go simp: acquire_free Let_def rel heap)
  moreover have "alone w sd i (if room_is_empty (heap ?s1 ad) then Some (so, LeaveDrop ss g) else finished so g, ?s1)
      (finished so g, leave_room w (s_app_key ss) (s_room_code ss) (s_peer_id ss) s)"
  proof (cases "room_is_empty (heap ?s1 ad)")
    case True
    let ?s2 = "drop_if_empty w (s_app_key ss) (s_room_code ss) ?s1"
    have "alone w sd i (Some (so, LeaveDrop ss g), ?s1) (finished so g, ?s2)"
    proof (cases "registry ?s1 (s_app_key ss)")
      case None
      then show ?thesis by (intro alone_step) (simp add: drop_if_empty_def)
    next
      case (Some p)
      have "alone w sd i (Some (so, LeaveRemove ss g), ?s1) (finished so g, ?s2)" by (rule alone_step) simp
      then show ?thesis by (rule go [rotated]) (simp add: Some)
    qed
    with True Some show ?thesis by (simp add: leave_room_def)
  next
    case False
    with Some show ?thesis by (simp add: leave_room_def)
  qed
  ultimately show ?thesis by (rule alone_trans)
qed

section \<open>Hello\<close>

abbreviation hello_of ::
  "string \<Rightarrow> room_code \<Rightarrow> string \<Rightarrow> string option \<Rightarrow> string option \<Rightarrow> string option \<Rightarrow> hello" where
  "hello_of a rc h d t pw \<equiv> \<lparr>h_app_key = a, h_room_code = rc, h_client_hash = h, h_display_name = d,
     h_auth_token = t, h_password = pw\<rparr>"

text \<open>The random codes, one attempt per step.\<close>

lemma try_insert_pool:
  assumes "registry s a = Some p"
  shows "insert_room w a c st s =
    (let (res, p', s') = try_insert_new_room w c st (p, s) in (res, put_pool a p' s'))"
  using assms by (simp add: insert_room_def)

lemma try_insert_None:
  "try_insert_new_room w c st (p, s) = (None, p', s') \<Longrightarrow> p' = p \<and> s' = s"
  by (auto simp: try_insert_new_room_def Let_def split: option.splits)

lemma put_pool_same: "registry s a = Some p \<Longrightarrow> put_pool a p s = s"
  by (simp add: put_pool_def fun_upd_idem)

lemma try_codes_registry: "try_random_codes n w st (p, s) = (None, p', s') \<Longrightarrow> p' = p \<and> registry s' = registry s"
proof (induction n arbitrary: s)
  case (Suc n)
  obtain c s1 where rc: "random_code w s = (c, s1)" by fastforce
  then have "registry s1 = registry s" by (auto simp: random_code_def)
  with Suc rc show ?case by (fastforce dest: try_insert_None split: prod.splits option.splits)
qed simp

lemma alone_create:
  assumes a: "h_app_key h = a" and "registry s a = Some p" and "try_random_codes n w st (p, s) = (res, p', s')"
  shows "alone w sd i (Some (None, HelloCreate h st n), s)
    (case res of
       Some (c, ad) \<Rightarrow> (Some (None, HelloLock h c ad), put_pool a p' s')
     | None \<Rightarrow> (Some (None, HelloFallback h st), s'))"
  using assms(2,3)
proof (induction n arbitrary: s)
  case 0
  then show ?case by (auto intro!: alone_step)
next
  case (Suc n)
  obtain c s1 where rc: "random_code w s = (c, s1)" by fastforce
  have s1: "s1 = s\<lparr>rng_pos := rng_pos s + ROOM_CODE_LEN\<rparr>" using rc by (simp add: random_code_def)
  then have r1: "registry s1 a = Some p" using Suc.prems(1) by simp
  obtain r p2 s2 where ti: "try_insert_new_room w c st (p, s1) = (r, p2, s2)" by (metis surj_pair)
  then have ir: "insert_room w a c st s1 = (r, put_pool a p2 s2)"
    by (simp add: try_insert_pool [OF r1])
  show ?case
  proof (cases r)
    case None
    with ti try_insert_None have "p2 = p" "s2 = s1" by blast+
    with Suc.prems(2) rc ti None have "try_random_codes n w st (p, s1) = (res, p', s')" by simp
    note ih = Suc.IH [OF r1 this]
    have "proceed w sd i None (HelloTry h st n c) s1 = Some (Some (None, HelloCreate h st n), s1)"
      using a ir None \<open>p2 = p\<close> \<open>s2 = s1\<close> put_pool_same [OF r1] by simp
    from go [OF this ih] show ?thesis by (rule go [rotated]) (simp add: rc)
  next
    case (Some x)
    obtain c' ad where x: "x = (c', ad)" by fastforce
    have "res = Some (c', ad)" "p' = p2" "s' = s2" using Suc.prems(2) rc ti Some x by simp_all
    moreover have "alone w sd i (Some (None, HelloTry h st n c), s1) (Some (None, HelloLock h c' ad), put_pool a p2 s2)"
      by (rule alone_step) (use a ir Some x in simp)
    ultimately show ?thesis by (auto intro: go simp: rc)
  qed
qed

lemma alone_create_room:
  assumes a: "h_app_key h = a" and r: "registry s a = Some p" and cr: "create_room w st [] (p, s) = (res, p', s')"
  shows "alone w sd i (Some (None, HelloCreate h st ROOM_CODE_GEN_RETRIES), s)
    (case res of
       Some (c, ad) \<Rightarrow> (Some (None, HelloLock h c ad), put_pool a p' s')
     | None \<Rightarrow> (Some (None, Reply [Error ''failed to create room'']), put_pool a p' s'))"
proof -
  obtain r1 p1 s1 where t: "try_random_codes ROOM_CODE_GEN_RETRIES w st (p, s) = (r1, p1, s1)" by (metis surj_pair)
  note al = alone_create [where i = i, OF a r t]
  show ?thesis
  proof (cases r1)
    case (Some x)
    moreover obtain c ad where "x = (c, ad)" by fastforce
    ultimately show ?thesis using cr t al by (auto simp: create_room_def)
  next
    case None
    let ?s2 = "s1\<lparr>fallback_counter := fallback_counter s1 + 1\<rparr>"
    from try_codes_registry [OF t [unfolded None]] have p1: "p1 = p" "registry s1 = registry s" by blast+
    have ti: "try_insert_new_room w (fallback_code (fallback_counter s1)) st (p, ?s2) = (res, p', s')"
      using cr t None p1(1) by (simp add: create_room_def Let_def)
    have "registry ?s2 a = Some p" using p1 r by simp
    then have "insert_room w a (fallback_code (fallback_counter s1)) st ?s2 = (res, put_pool a p' s')"
      using ti by (simp add: try_insert_pool)
    then have "alone w sd i (Some (None, HelloFallback h st), s1)
      (case res of
         Some (c, ad) \<Rightarrow> (Some (None, HelloLock h c ad), put_pool a p' s')
       | None \<Rightarrow> (Some (None, Reply [Error ''failed to create room'']), put_pool a p' s'))"
      by (auto intro!: go simp: a split: option.split)
    with al None show ?thesis by (auto intro: alone_trans)
  qed
qed

text \<open>From the pool to the room, and the join itself.\<close>

lemma alone_hello_room:
  assumes run: "hello_room w a rc s = (res, s')"
  shows "alone w sd i (Some (None, HelloPool (hello_of a rc h d t pw)), s)
    (case res of
       Inr (c, ad) \<Rightarrow> (Some (None, HelloLock (hello_of a rc h d t pw) c ad), s')
     | Inl e \<Rightarrow> (Some (None, Reply [Error e]), s'))"
proof -
  let ?h = "hello_of a rc h d t pw" and ?s1 = "ensure_pool a s"
  obtain p where p: "registry ?s1 a = Some p"
    by (cases "registry s a") (auto simp: ensure_pool_def)
  have eq: "hello_room w a rc s =
      (if code_str rc = []
       then let (st, c) = default_room_settings_for_app w a (cache ?s1)
            in (case create_room w st [] (p, ?s1\<lparr>cache := c\<rparr>) of
                  (Some (code', ad), p', s') \<Rightarrow> (Inr (code', ad), put_pool a p' s')
                | (None, p', s') \<Rightarrow> (Inl ''failed to create room'', put_pool a p' s'))
       else (case get_room w p rc of
               Some ad \<Rightarrow> (Inr (rc, ad), ?s1)
             | None \<Rightarrow> (Inl ''room not found'', ?s1)))"
    by (rule hello_room_ensured [OF p])
  have first: "alone w sd i (Some (None, HelloPool ?h), s) (Some (None, HelloFind ?h), ?s1)"
    by (rule alone_step) simp
  show ?thesis
  proof (cases "code_str rc = []")
    case False
    have "alone w sd i (Some (None, HelloFind ?h), ?s1)
      (case res of
         Inr (c, ad) \<Rightarrow> (Some (None, HelloLock ?h c ad), s')
       | Inl e \<Rightarrow> (Some (None, Reply [Error e]), s'))"
      by (rule alone_step) (use False p run eq in \<open>auto split: option.splits\<close>)
    with first show ?thesis by (rule alone_trans)
  next
    case True
    obtain st c where d: "default_room_settings_for_app w a (cache ?s1) = (st, c)" by fastforce
    let ?s2 = "?s1\<lparr>cache := c\<rparr>"
    obtain r p' s3 where cr: "create_room w st [] (p, ?s2) = (r, p', s3)" by (metis surj_pair)
    have res: "res = (case r of Some x \<Rightarrow> Inr x | None \<Rightarrow> Inl ''failed to create room'')" "s' = put_pool a p' s3"
      using run eq True d cr by (auto split: option.splits)
    have second: "alone w sd i (Some (None, HelloFind ?h), ?s1) (Some (None, HelloCreate ?h st ROOM_CODE_GEN_RETRIES), ?s2)"
      by (rule alone_step) (use True p d in simp)
    have "alone w sd i (Some (None, HelloCreate ?h st ROOM_CODE_GEN_RETRIES), ?s2)
      (case r of
         Some (c, ad) \<Rightarrow> (Some (None, HelloLock ?h c ad), put_pool a p' s3)
       | None \<Rightarrow> (Some (None, Reply [Error ''failed to create room'']), put_pool a p' s3))"
      by (rule alone_create_room [OF _ _ cr]) (simp_all add: p)
    with second have "alone w sd i (Some (None, HelloFind ?h), ?s1)
      (case r of
         Some (c, ad) \<Rightarrow> (Some (None, HelloLock ?h c ad), put_pool a p' s3)
       | None \<Rightarrow> (Some (None, Reply [Error ''failed to create room'']), put_pool a p' s3))"
      by (rule alone_trans)
    with first have "alone w sd i (Some (None, HelloPool ?h), s)
      (case r of
         Some (c, ad) \<Rightarrow> (Some (None, HelloLock ?h c ad), put_pool a p' s3)
       | None \<Rightarrow> (Some (None, Reply [Error ''failed to create room'']), put_pool a p' s3))"
      by (rule alone_trans)
    then show ?thesis by (cases r) (auto simp: res)
  qed
qed

lemma alone_join:
  assumes "locked s = {}" and j: "hello_join w a c ad i h d pw s = (out, so, s')"
  shows "alone w sd i (Some (None, HelloLock (hello_of a rc h d t pw) c ad), s) (Some (so, Reply out), s')"
proof -
  have free: "ad \<notin> locked s" using assms(1) by simp
  let ?L = "insert ad (locked s)"
  have j': "hello_join w a c ad i h d pw (s\<lparr>locked := ?L\<rparr>) = (out, so, s'\<lparr>locked := ?L\<rparr>)"
    by (rule hello_join_locked [OF j])
  have "locked s' = locked s" by (rule locked_hello_join [OF j])
  then have "release ad (s'\<lparr>locked := ?L\<rparr>) = s'"
    using release_acquired(1) [of ad s'] free by simp
  with free j' show ?thesis by (auto intro!: go simp: acquire_free)
qed

lemma alone_hello:
  assumes L: "locked s = {}" and run: "handle_hello w so i a rc h d t pw s = (out, so', s')"
  shows "alone w sd i (Some (begin_message so (Hello a rc h d t pw)), s) (Some (so', Reply out), s')"
proof -
  let ?h = "hello_of a rc h d t pw" and ?s0 = "leave_old w so s"
  have left: "alone w sd i (Some (begin_message so (Hello a rc h d t pw)), s) (Some (None, HelloAdmit ?h), ?s0)"
  proof (cases so)
    case None
    then show ?thesis by (simp add: leave_old_def)
  next
    case (Some ss)
    with alone_leave [OF L, of w sd i None ss "ThenHello ?h"] show ?thesis by (simp add: leave_old_def)
  qed
  have L0: "locked ?s0 = {}"
    using L by (simp add: leave_old_def leave_room_def Let_def split: option.split)
  obtain r1 s1 where ad: "hello_admit w a rc h d t pw ?s0 = (r1, s1)" by fastforce
  have L1: "locked s1 = {}" using locked_hello_admit [OF ad] L0 by simp
  show ?thesis
  proof (cases r1)
    case (Inl e)
    with run ad have "out = [Error e]" "so' = None" "s' = s1" by (simp_all add: handle_hello_def)
    moreover have "alone w sd i (Some (None, HelloAdmit ?h), ?s0) (Some (None, Reply [Error e]), s1)"
      by (rule alone_step) (use ad Inl in simp)
    ultimately show ?thesis using left alone_trans by blast
  next
    case (Inr u)
    obtain r2 s2 where hr: "hello_room w a rc s1 = (r2, s2)" by fastforce
    have "alone w sd i (Some (None, HelloAdmit ?h), ?s0) (Some (None, HelloPool ?h), s1)"
      by (rule alone_step) (use ad Inr in simp)
    with left have l1: "alone w sd i (Some (begin_message so (Hello a rc h d t pw)), s) (Some (None, HelloPool ?h), s1)"
      by (rule alone_trans)
    note l2 = alone_trans [OF l1 alone_hello_room [OF hr]]
    show ?thesis
    proof (cases r2)
      case (Inl e)
      with l2 run ad Inr hr show ?thesis by (simp add: handle_hello_def)
    next
      case r2: (Inr x)
      obtain c ad' where x: "x = (c, ad')" by fastforce
      have j: "hello_join w a c ad' i h d pw s2 = (out, so', s')"
        using run ad Inr hr r2 x by (simp add: handle_hello_def)
      have "locked s2 = {}" using locked_hello_room [OF hr] L1 by simp
      from alone_join [OF this j, of sd rc t] l2 r2 x show ?thesis by (auto intro: alone_trans)
    qed
  qed
qed

section \<open>The other messages\<close>

lemma alone_act:
  assumes "locked s = {}" and run: "in_session_room w ss (act_in_room w (s_peer_id ss) m) s = (out, s')"
  shows "alone w sd i (Some (so, ActLookup ss m), s) (Some (so, Reply out), s')"
proof (cases "lookup_room w s (s_app_key ss) (s_room_code ss)")
  case None
  with run have "out = []" "s' = s" by (simp_all add: in_session_room_def)
  with None show ?thesis by (auto intro!: alone_step)
next
  case (Some ad)
  have free: "ad \<notin> locked s" using assms(1) by simp
  obtain r lg where a: "act_in_room w (s_peer_id ss) m (heap s ad, sends s) = (out, (r, lg))"
    and s': "s' = s\<lparr>heap := (heap s)(ad := r), sends := lg\<rparr>"
    using run Some by (auto simp: in_session_room_def split: prod.splits)
  show ?thesis
    using Some a release_acquired(2) [OF free]
    by (auto intro!: go simp: acquire_free [OF free] s')
qed

text \<open>All messages but a listing.\<close>

lemma alone_dispatch:
  assumes L: "locked s = {}" and nl: "\<forall>a. msg \<noteq> ListRooms a"
    and run: "dispatch w so i msg s = (out, so', s')"
  shows "alone w sd i (Some (begin_message so msg), s) (Some (so', Reply out), s')"
proof (cases msg)
  case (Hello a rc h d t pw)
  with run alone_hello [OF L] show ?thesis by (simp add: dispatch_defs)
next
  case (ListRooms a)
  with nl show ?thesis by simp
next
  case (RoomControl rc)
  show ?thesis
  proof (cases so)
    case None
    with run RoomControl show ?thesis by (auto simp: dispatch_defs with_session_def need_session_def)
  next
    case (Some ss)
    with run RoomControl have hc: "handle_control w ss rc s = (out, so', s')"
      by (simp add: dispatch_defs with_session_def)
    consider "rc = Leave" | st where "rc = CreateRoom st"
      | "in_session_room w ss (act_in_room w (s_peer_id ss) (RoomControl rc)) s = (out, s')" "so' = so"
        "begin_message so msg = (so, ActLookup ss (RoomControl rc))"
      using hc Some RoomControl
      by (cases rc) (auto simp: handle_control_def need_session_def act_in_room_eta split: prod.splits)
    then show ?thesis
    proof cases
      case 1
      with hc alone_leave [OF L, of w sd i None ss ThenReply] Some RoomControl show ?thesis
        by (auto simp: handle_control_def need_session_def)
    next
      case 2
      with hc Some RoomControl show ?thesis by (auto simp: handle_control_def need_session_def)
    next
      case 3
      with alone_act [OF L] show ?thesis by simp
    qed
  qed
next
  case (Move blob)
  with run Move act_in_room_eta alone_act [OF L, where m = "Move blob"] show ?thesis
    by (cases so) (auto simp: dispatch_defs with_session_def need_session_def split: prod.splits)
next
  case (Input blob)
  with run Input act_in_room_eta alone_act [OF L, where m = "Input blob"] show ?thesis
    by (cases so) (auto simp: dispatch_defs with_session_def need_session_def split: prod.splits)
next
  case RequestState
  with run RequestState act_in_room_eta alone_act [OF L, where m = RequestState] show ?thesis
    by (cases so) (auto simp: dispatch_defs with_session_def need_session_def split: prod.splits)
qed (use run in \<open>auto simp: dispatch_defs\<close>)

lemma alone_close:
  assumes "locked s = {}" and "close_connection w c s = (c', s')"
  shows "alone w sd i (begin_close (c_session c), s) (None, s')"
proof (cases "c_session c")
  case None
  with assms(2) show ?thesis by (simp add: close_connection_def begin_close_def)
next
  case (Some ss)
  with assms(2) alone_leave [OF assms(1), of w sd i None ss ThenEnd] show ?thesis
    by (auto simp: close_connection_def begin_close_def)
qed

end
