(* ===== verification/Task_Runs.thy ===== *)
theory Task_Runs
  imports Task_Alone Demo_Run
begin

text \<open>
  Concrete runs of the tasks.  Connection 0 opens a room of the app \<open>solo\<close>; then its departure
  interleaves with another connection's Hello, which is admitted in one run and refused in the other.
\<close>

section \<open>Extending a run\<close>

text \<open>Maps of one shard.\<close>

definition one_shard :: sharding where
  "one_shard = \<lparr>shard_count = 1, shard_hash = (\<lambda>_ _. 0)\<rparr>"

abbreviation snapshot :: "server \<Rightarrow> (conn_id \<rightharpoonup> worker) \<Rightarrow> conn_id \<Rightarrow> tasks" where
  "snapshot s ws n \<equiv> \<lparr>sharding = one_shard, store = s, workers = ws, next_worker = n\<rparr>"

abbreviation run_to :: "tasks \<Rightarrow> bool" where
  "run_to \<equiv> tasks_reachable (map ascii_lower)"

lemma wire_step: "task_happens wire_world ev y = Some y' \<Longrightarrow> task_step (map ascii_lower) y y'"
  by (rule task_stepI [where w = wire_world]) simp_all

lemma reach_step: "run_to y \<Longrightarrow> task_happens wire_world ev y = Some y' \<Longrightarrow> run_to y'"
  by (rule more, assumption) (rule wire_step)

text \<open>A step of a task that writes to a shard, while the others read none.\<close>

lemma quiet_advance:
  assumes "workers y i = Some (so, p)" and "proceed wire_world (sharding y) i so p (store y) = Some (wk, s')"
    and "others_quiet i y"
  shows "task_happens wire_world (Advance i) y = Some (y\<lparr>store := s', workers := (workers y)(i := wk)\<rparr>)"
  using assms(1) advance_unhindered [OF assms(2,1,3)] by simp

lemmas reach_quiet = reach_step [OF _ quiet_advance]

text \<open>The uninterrupted steps of one task.\<close>

lemma run_alone:
  assumes "alone wire_world one_shard i (workers y i, store y) (wk, s)" and "sharding y = one_shard"
    and "others_quiet i y"
  shows "(internal (map ascii_lower))\<^sup>*\<^sup>* y (y\<lparr>store := s, workers := (workers y)(i := wk)\<rparr>)"
  using alone_internal [OF assms(1) refl wire_world_fold assms(2,3)] by simp

lemma reach_alone:
  assumes "run_to y" and "alone wire_world one_shard i (workers y i, store y) (wk, s)"
    and "sharding y = one_shard" and "others_quiet i y"
  shows "run_to (y\<lparr>store := s, workers := (workers y)(i := wk)\<rparr>)"
  by (rule internal_reachable [OF run_alone [OF assms(2-4)] assms(1)])

section \<open>A room with one member\<close>

definition solo_session :: session where
  "solo_session = \<lparr>s_app_key = ''solo'', s_room_code = demo_code, s_peer_id = 1\<rparr>"

definition solo_pool :: room_pool where
  "solo_pool = \<lparr>pool_app_key = ''solo'', rooms = [''abcdef'' \<mapsto> 0]\<rparr>"

definition solo_store :: "room_settings \<Rightarrow> server \<Rightarrow> bool" where
  "solo_store st s \<longleftrightarrow>
     registry s = [''solo'' \<mapsto> solo_pool] \<and> member_info (heap s 0) = [1 \<mapsto> demo_info0] \<and>
     host_peer_id (heap s 0) = 1 \<and> settings (heap s 0) = st \<and> banned (heap s 0) = {} \<and>
     next_addr s = 1 \<and> locked s = {} \<and> cache s = [''solo'' \<mapsto> demo_settings]"

lemma solo_store_lookup: "solo_store st s \<Longrightarrow> lookup_room wire_world s ''solo'' demo_code = Some 0"
  by (simp add: lookup_room_def get_room_def code_key_def demo_code_key solo_store_def solo_pool_def)

lemma solo_members: "solo_store st s \<Longrightarrow> members (heap s 0) = {1}"
  by (simp add: solo_store_def dom_member_info [symmetric])

text \<open>Connection 0 says Hello; the rest of its Hello runs without interruption.\<close>

lemma reach_solo:
  "\<exists>s. run_to (snapshot s [0 \<mapsto> (Some solo_session, Idle)] 1) \<and> solo_store demo_settings s"
proof -
  let ?m = "Hello ''solo'' (RoomCode []) ''h'' None None None"
  obtain s' where d: "dispatch wire_world None 0 ?m (server_init quiet_world) =
      ([Joined demo_code 1 1 0 demo_settings None], Some solo_session, s')"
    and s': "member_info (heap s' 0) = [1 \<mapsto> demo_info0]" "host_peer_id (heap s' 0) = 1"
      "settings (heap s' 0) = demo_settings" "banned (heap s' 0) = {}" "next_addr s' = 1" "locked s' = {}"
      "cache s' = [''solo'' \<mapsto> demo_settings]" "registry s' = [''solo'' \<mapsto> solo_pool]"
    using demo_hello unfolding solo_session_def solo_pool_def by blast
  let ?y0 = "snapshot (server_init quiet_world) [0 \<mapsto> (None, Idle)] 1"
  let ?y1 = "snapshot (server_init quiet_world) [0 \<mapsto> begin_message None ?m] 1"
  have "0 < shard_count one_shard" by (simp add: one_shard_def)
  from tasks_reachable.init [OF this, where w = quiet_world] have "run_to ?y0"
    by (rule reach_step [where ev = Open]) (simp add: tasks_init_def)
  then have y1: "run_to ?y1"
    by (rule reach_step [where ev = "Receive 0 ?m"]) simp
  have "locked (server_init quiet_world) = {}" by (simp add: server_init_def)
  from alone_dispatch [OF this _ d]
  have al: "alone wire_world one_shard 0 (workers ?y1 0, store ?y1)
      (Some (Some solo_session, Reply [Joined demo_code 1 1 0 demo_settings None]), s')" by simp
  let ?s = "reply wire_world 0 [Joined demo_code 1 1 0 demo_settings None] s'"
  have y2: "run_to (snapshot s' [0 \<mapsto> (Some solo_session, Reply [Joined demo_code 1 1 0 demo_settings None])] 1)"
    using reach_alone [OF y1 al] by (simp add: others_quiet_def)
  have "run_to (snapshot ?s [0 \<mapsto> (Some solo_session, Idle)] 1)"
    by (rule reach_step [OF y2, where ev = "Advance 0"]) (simp add: advance_def)
  moreover have "solo_store demo_settings ?s"
    using s' by (simp add: solo_store_def reply_def)
  ultimately show ?thesis by blast
qed

section \<open>A Hello that finds the room\<close>

definition late_hello :: hello where
  "late_hello = \<lparr>h_app_key = ''solo'', h_room_code = demo_code, h_client_hash = ''g'', h_display_name = None,
     h_auth_token = None, h_password = None\<rparr>"

lemma late_admit:
  assumes "solo_store st s"
  shows "hello_admit wire_world ''solo'' demo_code ''g'' None None None s = (Inr (), s)"
proof -
  have "is_registered_app wire_world ''solo'' (cache s) = (True, cache s)"
    using assms by (simp add: is_registered_app_def solo_store_def)
  moreover have "w_app_secret wire_world = None" by (simp add: wire_world_def quiet_world_def)
  ultimately show ?thesis
    by (simp add: hello_admit_def validate_hello_def len_limits too_long_def auth_ok_def demo_code_def)
qed

text \<open>Connection 1 has found the room and waits for its mutex.\<close>

lemma late_arrives:
  assumes s: "solo_store st s" and y0: "run_to (snapshot s [0 \<mapsto> (Some solo_session, Idle)] 1)"
  shows "run_to (snapshot s [0 \<mapsto> (Some solo_session, Idle), 1 \<mapsto> (None, HelloLock late_hello demo_code 0)] 2)"
proof -
  let ?y = "\<lambda>p. snapshot s [0 \<mapsto> (Some solo_session, Idle), 1 \<mapsto> (None, p)] 2"
  have r: "registry s ''solo'' = Some solo_pool" using s by (simp add: solo_store_def)
  have "run_to (?y Idle)"
    by (rule reach_step [OF y0, where ev = Open]) simp
  then have "run_to (?y (HelloAdmit late_hello))"
    by (rule reach_step [where ev = "Receive 1 (Hello ''solo'' demo_code ''g'' None None None)"])
      (simp add: late_hello_def fun_upd_twist)
  then have "run_to (?y (HelloPool late_hello))"
    by (rule reach_step [where ev = "Advance 1"]) (simp add: advance_def late_admit [OF s] late_hello_def)
  then have "run_to (snapshot (ensure_pool ''solo'' s) [0 \<mapsto> (Some solo_session, Idle), 1 \<mapsto> (None, HelloFind late_hello)] 2)"
    using reach_quiet [of "?y (HelloPool late_hello)" 1] by (auto simp: others_quiet_def late_hello_def)
  then have "run_to (?y (HelloFind late_hello))" by (simp add: ensure_pool_def r)
  then show ?thesis
    by (rule reach_step [where ev = "Advance 1"])
      (use solo_store_lookup [OF s] r in \<open>simp add: advance_def late_hello_def lookup_room_def demo_code_def\<close>)
qed

lemma reach_late:
  "\<exists>s. run_to (snapshot s [0 \<mapsto> (Some solo_session, Idle), 1 \<mapsto> (None, HelloLock late_hello demo_code 0)] 2) \<and>
       solo_store demo_settings s"
  using reach_solo late_arrives by blast

text \<open>Connection 1 has the mutex, and connection 0, which leaves, waits for it.\<close>

lemma reach_waiting:
  "\<exists>s. run_to (snapshot s [0 \<mapsto> (None, LeaveLock solo_session ThenEnd 0), 1 \<mapsto> (None, HelloRun late_hello demo_code 0)] 2) \<and>
       locked s = {0}"
proof -
  obtain s where s: "solo_store demo_settings s"
    and y: "run_to (snapshot s [0 \<mapsto> (Some solo_session, Idle), 1 \<mapsto> (None, HelloLock late_hello demo_code 0)] 2)"
    using reach_late by blast
  let ?y = "\<lambda>s p. snapshot s [0 \<mapsto> (None, p), 1 \<mapsto> (None, HelloLock late_hello demo_code 0)] 2"
  have "run_to (?y s (LeaveLookup solo_session ThenEnd))"
    by (rule reach_step [OF y, where ev = "Hangup 0"]) (simp add: begin_close_def fun_eq_iff)
  then have "run_to (?y s (LeaveLock solo_session ThenEnd 0))"
    by (rule reach_step [where ev = "Advance 0"])
      (use solo_store_lookup [OF s] in \<open>simp add: advance_def solo_session_def fun_eq_iff\<close>)
  then have "run_to (snapshot (s\<lparr>locked := {0}\<rparr>)
      [0 \<mapsto> (None, LeaveLock solo_session ThenEnd 0), 1 \<mapsto> (None, HelloRun late_hello demo_code 0)] 2)"
    by (rule reach_step [where ev = "Advance 1"])
      (use s in \<open>simp add: advance_def acquire_def solo_store_def fun_eq_iff\<close>)
  then show ?thesis by (intro exI [of _ "s\<lparr>locked := {0}\<rparr>"]) simp
qed

section \<open>The last departure overlaps with a Hello that is admitted\<close>

text \<open>Connection 0 goes away meanwhile: its room is empty and is dropped.\<close>

lemma solo_leave:
  assumes wf: "room_wf (heap s 0)" and s: "solo_store st s"
  shows "leave_room wire_world ''solo'' demo_code 1 s =
    s\<lparr>heap := (heap s)(0 := remove_member 1 (heap s 0)), registry := [''solo'' \<mapsto> solo_pool\<lparr>rooms := Map.empty\<rparr>]\<rparr>"
proof -
  note l = leave_in_room_last [OF wf solo_members [OF s]]
  have "room_is_empty (remove_member 1 (heap s 0))" using l(2) by (simp add: room_is_empty_members)
  then show ?thesis
    using s l(1) solo_store_lookup [OF s]
    by (simp add: leave_room_def with_room_def drop_if_empty_def remove_if_empty_def code_key_def demo_code_key
        solo_store_def solo_pool_def Let_def)
qed

lemma reach_dropped:
  "\<exists>s. run_to (snapshot s [1 \<mapsto> (None, HelloLock late_hello demo_code 0)] 2) \<and>
       registry s = [''solo'' \<mapsto> solo_pool\<lparr>rooms := Map.empty\<rparr>] \<and> locked s = {} \<and> room_wf (heap s 0) \<and>
       members (heap s 0) = {} \<and> settings (heap s 0) = demo_settings \<and> banned (heap s 0) = {} \<and> next_addr s = 1"
proof -
  let ?late = "(None, HelloLock late_hello demo_code 0) :: worker"
  obtain s where s: "solo_store demo_settings s"
    and y: "run_to (snapshot s [0 \<mapsto> (Some solo_session, Idle), 1 \<mapsto> ?late] 2)"
    using reach_late by blast
  have wf: "room_wf (heap s 0)" using tasks_reachable_inv [OF y] by (simp add: tasks_inv_def server_wf_def)
  let ?y = "snapshot s [0 \<mapsto> (None, LeaveLookup solo_session ThenEnd), 1 \<mapsto> ?late] 2"
  let ?s = "leave_room wire_world ''solo'' demo_code 1 s"
  have y1: "run_to ?y"
    by (rule reach_step [OF y, where ev = "Hangup 0"]) (simp add: begin_close_def fun_upd_twist)
  have "locked s = {}" using s by (simp add: solo_store_def)
  from alone_leave [OF this, of wire_world one_shard 0 None solo_session ThenEnd]
  have "alone wire_world one_shard 0 (workers ?y 0, store ?y) (None, ?s)" by (simp add: solo_session_def)
  from reach_alone [OF y1 this]
  have "run_to (snapshot ?s [1 \<mapsto> ?late] 2)"
    by (simp add: fun_upd_twist others_quiet_def)
  moreover note l = leave_in_room_last(2) [OF wf solo_members [OF s]]
  have "settings (remove_member 1 (heap s 0)) = demo_settings" "banned (remove_member 1 (heap s 0)) = {}"
    using s by (simp_all add: solo_store_def remove_member_def)
  with l s wf have "registry ?s = [''solo'' \<mapsto> solo_pool\<lparr>rooms := Map.empty\<rparr>]" "locked ?s = {}" "room_wf (heap ?s 0)"
    "members (heap ?s 0) = {}" "settings (heap ?s 0) = demo_settings" "banned (heap ?s 0) = {}"
    "next_addr ?s = 1"
    by (simp_all add: solo_leave [OF wf s]) (simp_all add: solo_store_def)
  ultimately show ?thesis by blast
qed

text \<open>The waiting Hello goes on with the room it had found.\<close>

lemma reach_orphan:
  "\<exists>y1 y2 q m. run_to y1 \<and> workers y1 = [1 \<mapsto> (None, HelloLock late_hello demo_code 0)] \<and>
     (\<forall>a k. \<not> registered (store y1) a k 0) \<and>
     (internal (map ascii_lower))\<^sup>*\<^sup>* y1 y2 \<and>
     workers y2 = [1 \<mapsto> (Some (solo_session\<lparr>s_peer_id := q\<rparr>), Idle)] \<and>
     (\<forall>a k. \<not> registered (store y2) a k 0) \<and> q \<in> members (heap (store y2) 0) \<and>
     (1, m, Sent) \<in> set (sends (store y2)) \<and> (\<exists>h sd st b. m = Joined demo_code q h sd st b)"
proof -
  let ?late = "(None, HelloLock late_hello demo_code 0) :: worker"
  obtain s where y: "run_to (snapshot s [1 \<mapsto> ?late] 2)"
    and reg: "registry s = [''solo'' \<mapsto> solo_pool\<lparr>rooms := Map.empty\<rparr>]" and L: "locked s = {}"
    and r: "room_wf (heap s 0)" "members (heap s 0) = {}" "settings (heap s 0) = demo_settings" "banned (heap s 0) = {}"
    using reach_dropped by blast
  have "\<not> is_banned (heap s 0) (ClientHash ''g'')" "\<not> is_full (heap s 0)" "password_ok (heap s 0) None"
    using r by (simp_all add: is_banned_def is_full_def password_ok_def demo_settings_def default_settings_def)
  from join_room_succeeds [OF r(1) this, of 1] r(2) obtain pid joined r' lg' where
    j: "join_room wire_world demo_code 1 ''g'' None None (heap s 0, sends s) = (Inr (pid, joined), (r', lg'))"
    by (metis empty_iff one_neq_zero)
  from join_room_Inr [OF r(1) j] obtain h sd st b where m: "joined = Joined demo_code pid h sd st b"
    and pid: "pid \<in> members r'"
    by (auto simp: admitted_def dom_member_info [symmetric])
  let ?ss = "solo_session\<lparr>s_peer_id := pid\<rparr>" and ?s = "s\<lparr>heap := (heap s)(0 := r'), sends := lg'\<rparr>"
  have hj: "hello_join wire_world ''solo'' demo_code 0 1 ''g'' None None s = ([joined], Some ?ss, ?s)"
    using j by (simp add: hello_join_def solo_session_def)
  let ?y = "snapshot s [1 \<mapsto> ?late] 2"
  let ?y2 = "snapshot (reply wire_world 1 [joined] ?s) [1 \<mapsto> (Some ?ss, Idle)] 2"
  have "alone wire_world one_shard 1 (workers ?y 1, store ?y) (Some (Some ?ss, Reply [joined]), ?s)"
    using alone_join [OF L hj, of one_shard demo_code None] by (simp add: late_hello_def)
  moreover have "alone wire_world one_shard 1 (Some (Some ?ss, Reply [joined]), ?s)
      (Some (Some ?ss, Idle), reply wire_world 1 [joined] ?s)" by (rule alone_step) simp
  ultimately have "alone wire_world one_shard 1 (workers ?y 1, store ?y)
      (Some (Some ?ss, Idle), reply wire_world 1 [joined] ?s)" by (rule alone_trans)
  from run_alone [OF this] have "(internal (map ascii_lower))\<^sup>*\<^sup>* ?y ?y2" by (simp add: others_quiet_def)
  moreover have "\<not> registered (store ?y) a k 0" "\<not> registered (store ?y2) a k 0" for a k
    by (simp_all add: registered_def reply_def reg)
  moreover have "(1, joined, Sent) \<in> set (sends (store ?y2))"
    by (simp add: reply_def try_send_def wire_world_def quiet_world_def Let_def)
  moreover have "pid \<in> members (heap (store ?y2) 0)" using pid by (simp add: reply_def)
  ultimately show ?thesis using y m
    by (intro exI [of _ ?y] exI [of _ ?y2] exI [of _ pid] exI [of _ joined]) simp
qed

section \<open>The last departure overlaps with a Hello that is refused\<close>

text \<open>Where no channel is closed, a broadcast removes nobody.\<close>

lemma send_each_nobody: "\<forall>lg c m. w_try_send w lg c m \<noteq> Closed \<Longrightarrow> fst (send_each w m es lg) = []"
  by (induction w m es lg rule: send_each.induct)
    (auto simp: try_send_def is_closed_def Let_def split: prod.splits if_splits)

lemma broadcast_nobody:
  assumes "\<forall>lg c m. w_try_send w lg c m \<noteq> Closed"
  shows "fst (broadcast_and_prune w m (r, lg)) = r"
  using send_each_nobody [OF assms, of m "table (clients r)" lg]
  by (auto simp: broadcast_and_prune_def broadcast_retain_connected_def prune_and_announce_def announce_host_def
      split: prod.splits)

lemma wire_sends: "\<forall>lg c m. w_try_send wire_world lg c m \<noteq> Closed"
  by (simp add: wire_world_def quiet_world_def)

text \<open>Connection 0 sets a password.\<close>

definition locked_settings :: room_settings where
  "locked_settings = demo_settings\<lparr>password := Some ''p''\<rparr>"

lemma reach_password:
  "\<exists>s. run_to (snapshot s [0 \<mapsto> (Some solo_session, Idle)] 1) \<and> solo_store locked_settings s"
proof -
  obtain s where s: "solo_store demo_settings s" and y: "run_to (snapshot s [0 \<mapsto> (Some solo_session, Idle)] 1)"
    using reach_solo by blast
  let ?rc = "UpdateSettings locked_settings" and ?r = "(heap s 0)\<lparr>settings := locked_settings\<rparr>"
  obtain lg where b: "broadcast_and_prune wire_world (RoomEvent (SettingsChanged (locked_settings\<lparr>password := None\<rparr>)))
      (?r, sends s) = (?r, lg)"
    using broadcast_nobody [OF wire_sends] by (metis prod.collapse)
  let ?s = "s\<lparr>heap := (heap s)(0 := ?r), sends := lg\<rparr>"
  have "control_in_room wire_world 1 ?rc (heap s 0, sends s) = ([], (?r, lg))"
    using b s by (simp add: solo_store_def)
  then have d: "dispatch wire_world (Some solo_session) 0 (RoomControl ?rc) s = ([], Some solo_session, ?s)"
    using solo_store_lookup [OF s]
    by (simp add: dispatch_defs with_session_def handle_control_def in_session_room_def solo_session_def)
  have L: "locked s = {}" using s by (simp add: solo_store_def)
  let ?y = "snapshot s [0 \<mapsto> begin_message (Some solo_session) (RoomControl ?rc)] 1"
  have y1: "run_to ?y" by (rule reach_step [OF y, where ev = "Receive 0 (RoomControl ?rc)"]) simp
  have al: "alone wire_world one_shard 0 (workers ?y 0, store ?y) (Some (Some solo_session, Reply []), ?s)"
    using alone_dispatch [OF L _ d] by simp
  have "run_to (snapshot ?s [0 \<mapsto> (Some solo_session, Reply [])] 1)"
    using reach_alone [OF y1 al] by (simp add: others_quiet_def)
  then have "run_to (snapshot (reply wire_world 0 [] ?s) [0 \<mapsto> (Some solo_session, Idle)] 1)"
    by (rule reach_step [where ev = "Advance 0"]) (simp add: advance_def)
  moreover have "solo_store locked_settings (reply wire_world 0 [] ?s)"
    using s by (simp add: solo_store_def reply_def member_info_def)
  ultimately show ?thesis by blast
qed

text \<open>
  The room is empty and worker 0 is about to remove it; worker 1, without the password, has its mutex.
\<close>

lemma reach_refused:
  "\<exists>s. run_to (snapshot s [0 \<mapsto> (None, LeaveRemove solo_session ThenEnd), 1 \<mapsto> (None, HelloRun late_hello demo_code 0)] 2) \<and>
       registry s = [''solo'' \<mapsto> solo_pool] \<and> locked s = {0} \<and> room_wf (heap s 0) \<and> members (heap s 0) = {} \<and>
       settings (heap s 0) = locked_settings \<and> banned (heap s 0) = {}"
proof -
  obtain s where s: "solo_store locked_settings s" and y0: "run_to (snapshot s [0 \<mapsto> (Some solo_session, Idle)] 1)"
    using reach_password by blast
  have wf: "room_wf (heap s 0)" using tasks_reachable_inv [OF y0] by (simp add: tasks_inv_def server_wf_def)
  have f: "registry s = [''solo'' \<mapsto> solo_pool]" "locked s = {}" using s by (simp_all add: solo_store_def)
  note last = leave_in_room_last [OF wf solo_members [OF s]]
  let ?r = "remove_member 1 (heap s 0)"
  have empty: "room_is_empty ?r" using last(2) by (simp add: room_is_empty_members)
  let ?y = "\<lambda>s p q. snapshot s [0 \<mapsto> (None, p), 1 \<mapsto> (None, q)] 2"
  let ?wait = "HelloLock late_hello demo_code 0"
  let ?s1 = "s\<lparr>locked := {0}\<rparr>" and ?s2 = "s\<lparr>heap := (heap s)(0 := ?r)\<rparr>"
  have "run_to (?y s (LeaveLookup solo_session ThenEnd) ?wait)"
    by (rule reach_step [OF late_arrives [OF s y0], where ev = "Hangup 0"]) (simp add: begin_close_def fun_eq_iff)
  then have "run_to (?y s (LeaveLock solo_session ThenEnd 0) ?wait)"
    by (rule reach_step [where ev = "Advance 0"])
      (use solo_store_lookup [OF s] in \<open>simp add: advance_def solo_session_def fun_eq_iff\<close>)
  then have "run_to (?y ?s1 (LeaveRun solo_session ThenEnd 0) ?wait)"
    by (rule reach_step [where ev = "Advance 0"]) (simp add: advance_def acquire_def f fun_eq_iff)
  then have "run_to (?y ?s2 (LeaveDrop solo_session ThenEnd) ?wait)"
    by (rule reach_step [where ev = "Advance 0"])
      (use last(1) empty f in \<open>simp add: advance_def solo_session_def with_room_def release_def fun_eq_iff\<close>)
  then have "run_to (?y ?s2 (LeaveRemove solo_session ThenEnd) ?wait)"
    by (rule reach_step [where ev = "Advance 0"]) (simp add: advance_def f solo_session_def fun_eq_iff)
  then have "run_to (?y (?s2\<lparr>locked := {0}\<rparr>) (LeaveRemove solo_session ThenEnd) (HelloRun late_hello demo_code 0))"
    by (rule reach_step [where ev = "Advance 1"]) (simp add: advance_def acquire_def f fun_eq_iff)
  moreover have "settings ?r = locked_settings" "banned ?r = {}"
    using s by (simp_all add: solo_store_def remove_member_def)
  ultimately show ?thesis using f last(2) wf
    by (intro exI [of _ "?s2\<lparr>locked := {0}\<rparr>"]) simp
qed

text \<open>The removal gives up, the Hello is refused, and the room stays.\<close>

lemma reach_leak:
  "\<exists>y1 y2 h. run_to y1 \<and> workers y1 = [0 \<mapsto> (None, LeaveRemove solo_session ThenEnd), 1 \<mapsto> (None, HelloRun h demo_code 0)] \<and>
     registered (store y1) ''solo'' ''abcdef'' 0 \<and> members (heap (store y1) 0) = {} \<and>
     (task_step (map ascii_lower))\<^sup>*\<^sup>* y1 y2 \<and> workers y2 = Map.empty \<and> locked (store y2) = {} \<and>
     registered (store y2) ''solo'' ''abcdef'' 0 \<and> members (heap (store y2) 0) = {} \<and>
     (1, Error ''invalid or missing room password'', Sent) \<in> set (sends (store y2))"
proof -
  let ?err = "Error ''invalid or missing room password''"
  obtain s where y: "run_to (snapshot s [0 \<mapsto> (None, LeaveRemove solo_session ThenEnd), 1 \<mapsto> (None, HelloRun late_hello demo_code 0)] 2)"
    (is "run_to ?y")
    and f: "registry s = [''solo'' \<mapsto> solo_pool]" "locked s = {0}" and r: "room_wf (heap s 0)" "members (heap s 0) = {}"
      "settings (heap s 0) = locked_settings" "banned (heap s 0) = {}"
    using reach_refused by blast
  let ?y1 = "snapshot s [1 \<mapsto> (None, HelloRun late_hello demo_code 0)] 2"
  let ?y2 = "snapshot (s\<lparr>locked := {}\<rparr>) [1 \<mapsto> (None, Reply [?err])] 2"
  let ?y3 = "snapshot (reply wire_world 1 [?err] (s\<lparr>locked := {}\<rparr>)) [1 \<mapsto> (None, Idle)] 2"
  let ?y4 = "snapshot (reply wire_world 1 [?err] (s\<lparr>locked := {}\<rparr>)) Map.empty 2"
  have "drop_if_empty wire_world ''solo'' demo_code s = s"
    using f by (simp add: drop_if_empty_def remove_if_empty_def solo_pool_def code_key_def demo_code_key)
  then have "proceed wire_world one_shard 0 None (LeaveRemove solo_session ThenEnd) s = Some (None, s)"
    by (simp add: solo_session_def)
  then have 1: "task_step (map ascii_lower) ?y ?y1"
    using wire_step [OF quiet_advance [of ?y 0]] by (simp add: others_quiet_def fun_upd_twist)
  have "\<not> is_banned (heap s 0) (ClientHash ''g'')" "\<not> is_full (heap s 0)" "\<not> password_ok (heap s 0) None"
    using r by (simp_all add: is_banned_def is_full_def password_ok_def or_empty_def locked_settings_def
        demo_settings_def default_settings_def)
  then have "hello_join wire_world ''solo'' demo_code 0 1 ''g'' None None s = ([?err], None, s)"
    by (simp add: hello_join_def join_room_def)
  then have 2: "task_step (map ascii_lower) ?y1 ?y2"
    by (intro wire_step [where ev = "Advance 1"]) (simp add: advance_def late_hello_def release_def f)
  have 3: "task_step (map ascii_lower) ?y2 ?y3"
    by (rule wire_step [where ev = "Advance 1"]) (simp add: advance_def)
  have 4: "task_step (map ascii_lower) ?y3 ?y4"
    by (rule wire_step [where ev = "Hangup 1"]) (simp add: begin_close_def)
  have "(task_step (map ascii_lower))\<^sup>*\<^sup>* ?y ?y4"
    using 1 2 3 4 by (meson converse_rtranclp_into_rtranclp rtranclp.rtrancl_refl)
  moreover have "(1, ?err, Sent) \<in> set (sends (store ?y4))"
    by (simp add: reply_def try_send_def wire_world_def quiet_world_def Let_def)
  moreover have "registered (store ?y) ''solo'' ''abcdef'' 0" "registered (store ?y4) ''solo'' ''abcdef'' 0"
    by (simp_all add: registered_def reply_def f solo_pool_def)
  ultimately show ?thesis using y r(2)
    by (intro exI [of _ ?y] exI [of _ ?y4] exI [of _ late_hello]) (simp add: reply_def)
qed

end
