(* ===== verification/Task_Guarantees.thy ===== *)
theory Task_Guarantees
  imports Task_Runs Game_State
begin

text \<open>
  What the server guarantees under every interleaving of its tasks at the grain of their locks.
\<close>

section \<open>Rooms change under their mutex only\<close>

lemma heap_hello_admit: "hello_admit w a rc h d t pw s = (res, s') \<Longrightarrow> heap s' = heap s"
  by (auto simp: hello_admit_def Let_def split: sum.splits if_splits prod.splits)

lemma heap_insert_room: "insert_room w a c st s = (res, s') \<Longrightarrow> ad < next_addr s \<Longrightarrow> heap s' ad = heap s ad"
  by (auto simp: insert_room_def try_insert_new_room_def Let_def split: option.splits)

lemma heap_hello_join:
  "hello_join w a c ad i h d pw s = (out, so, s') \<Longrightarrow> d' \<noteq> ad \<Longrightarrow> heap s' d' = heap s d'"
  by (auto simp: hello_join_def Let_def split: sum.splits prod.splits)

lemma heap_simps [simp]:
  "heap (ensure_pool a s) = heap s" "heap (drop_if_empty w a c s) = heap s"
  "heap (reply w i ms s) = heap s" "heap (release ad s) = heap s"
  "d \<noteq> ad \<Longrightarrow> heap (with_room ad g s) d = heap s d"
  by (simp_all add: ensure_pool_def drop_if_empty_def with_room_def reply_def release_def
      split: option.split prod.split)

lemma proceed_heap:
  assumes "proceed w sd i so p s = Some (wk, s')" and "ad < next_addr s" and "holding p \<noteq> Some ad"
  shows "heap s' ad = heap s ad"
proof (cases p)
  case (LeaveLookup ss g)
  with assms show ?thesis by (auto split: option.splits)
next
  case (LeaveDrop ss g)
  with assms show ?thesis by (auto split: option.splits)
next
  case (HelloAdmit h)
  with assms heap_hello_admit show ?thesis by (fastforce split: prod.splits sum.splits)
next
  case (HelloFind h)
  with assms show ?thesis
    by (cases "registry s (h_app_key h)"; cases "default_room_settings_for_app w (h_app_key h) (cache s)")
      (auto split: option.splits if_splits)
next
  case (HelloCreate h st n)
  with assms show ?thesis by (cases n) (auto simp: random_code_def)
next
  case (HelloTry h st n c)
  obtain res s2 where ir: "insert_room w (h_app_key h) c st s = (res, s2)" by fastforce
  have "s' = s2" using assms(1) HelloTry ir by (cases res) auto
  with heap_insert_room [OF ir assms(2)] show ?thesis by simp
next
  case (HelloInsert h st n)
  obtain res s2 where ir: "insert_room w (h_app_key h) (fallback_code n) st s = (res, s2)" by fastforce
  have "s' = s2" using assms(1) HelloInsert ir by (cases res) auto
  with heap_insert_room [OF ir assms(2)] show ?thesis by simp
next
  case (HelloRun h c d)
  obtain out so' s1 where j: "hello_join w (h_app_key h) c d i (h_client_hash h) (h_display_name h) (h_password h) s
      = (out, so', s1)" by (metis surj_pair)
  have "s' = release d s1" using assms(1) HelloRun j by auto
  with heap_hello_join [OF j, of ad] assms(3) HelloRun show ?thesis by simp
next
  case (ActLookup ss m)
  with assms show ?thesis by (auto split: option.splits)
next
  case (ActRun ss m d)
  with assms show ?thesis by (cases "act_in_room w (s_peer_id ss) m (heap s d, sends s)") auto
next
  case (ListApp a)
  with assms show ?thesis by (auto split: prod.splits)
next
  case (ListPool a)
  with assms show ?thesis by (auto split: option.splits)
next
  case (ListNext v acc)
  with assms show ?thesis
    by (cases v rule: visit_cases) (auto simp: acquire_Some split: option.splits)
next
  case (StatsApps sv)
  with assms show ?thesis by (cases sv rule: survey_cases) auto
next
  case (StatsRooms sv v c)
  with assms show ?thesis
    by (cases v rule: visit_cases; cases sv) (auto simp: acquire_Some split: option.splits)
qed (use assms in \<open>auto simp: acquire_Some Let_def\<close>)

lemmas advance_heap = proceed_heap [OF advance_proceed]

section \<open>Membership\<close>

text \<open>C1: In every state that the tasks can reach, whatever the interleaving of their accesses to
  the maps and mutexes, each member of a registered room sits on the channel of a live task that
  names exactly that place: it is the task's session, or the session the task has taken and is about
  to leave with.\<close>

theorem tasks_members_backed:
  assumes "tasks_reachable f y" and "registered (store y) a k ad" and "member_info (heap (store y) ad) pid = Some info"
  shows "\<exists>so p ss. workers y (tx info) = Some (so, p) \<and>
    (so = Some ss \<or> (\<exists>g d. p \<in> {LeaveLookup ss g, LeaveLock ss g d, LeaveRun ss g d})) \<and>
    s_app_key ss = a \<and> f (code_str (s_room_code ss)) = k \<and> s_peer_id ss = pid"
proof -
  have inv: "tasks_inv f y" by (rule tasks_reachable_inv [OF assms(1)])
  then have "session_for f (claim_of y (tx info)) a k pid"
    using assms(2,3) by (auto simp: tasks_inv_def intro: backedD)
  then obtain so p ss where "workers y (tx info) = Some (so, p)" "claim (so, p) = Some ss"
    "s_app_key ss = a \<and> f (code_str (s_room_code ss)) = k \<and> s_peer_id ss = pid"
    by (auto simp: session_for_def claim_of_def bind_eq_Some_conv)
  moreover from this(2) have "so = Some ss \<or> (\<exists>g d. p \<in> {LeaveLookup ss g, LeaveLock ss g d, LeaveRun ss g d})"
    by (cases p) auto
  ultimately show ?thesis by blast
qed

theorem tasks_members_backed_witness:
  "\<exists>(y :: tasks) so p ss. tasks_reachable (map ascii_lower) y \<and> workers y 0 = Some (so, p) \<and> s_peer_id ss = 1 \<and>
    (so = Some ss \<or> (\<exists>g d. p \<in> {LeaveLookup ss g, LeaveLock ss g d, LeaveRun ss g d}))"
proof -
  obtain s where s: "solo_store demo_settings s" and y: "tasks_reachable (map ascii_lower)
      (snapshot s [0 \<mapsto> (Some solo_session, Idle)] 1)" (is "tasks_reachable _ ?y")
    using reach_solo by blast
  have "registered (store ?y) ''solo'' ''abcdef'' 0" "member_info (heap (store ?y) 0) 1 = Some demo_info0"
    using s by (simp_all add: solo_store_def registered_def solo_pool_def)
  from tasks_members_backed [OF y this] have "\<exists>so p ss. workers ?y 0 = Some (so, p) \<and> s_peer_id ss = 1 \<and>
    (so = Some ss \<or> (\<exists>g d. p \<in> {LeaveLookup ss g, LeaveLock ss g d, LeaveRun ss g d}))"
    by (simp add: demo_info0_def)
  with y show ?thesis by blast
qed

text \<open>C2: Every step of the tasks is a step of the abstract membership specification: it frees
  places, or takes one connection out of all places and puts it into a free one.  Hence in every
  reachable state a connection occupies at most one place of all registered rooms.\<close>

theorem tasks_refine_membership_spec:
  assumes "tasks_reachable f y" and "task_step f y y'"
  shows "spec_step (abs_members (store y)) (abs_members (store y')) \<and>
    inj_on (abs_members (store y')) (dom (abs_members (store y')))"
proof -
  have inj: "inj_on (abs_members (store z)) (dom (abs_members (store z)))" if "tasks_reachable f z" for z
    using that
  proof (induction rule: tasks_reachable.induct)
    case (init sd f w)
    then show ?case by (simp add: abs_members_def tasks_init_def server_init_def inj_on_def)
  next
    case (more f y y')
    from spec_step_inj [OF task_step_spec [OF more.hyps] more.IH] show ?case .
  qed
  with task_step_spec [OF assms] more [OF assms] show ?thesis by blast
qed

theorem tasks_refine_membership_spec_witness:
  "\<exists>s. spec_step (abs_members s) (abs_members s) \<and> abs_members s (''solo'', ''abcdef'', 1) = Some 0"
proof -
  obtain s where s: "solo_store demo_settings s" and y: "tasks_reachable (map ascii_lower)
      (snapshot s [0 \<mapsto> (Some solo_session, Idle)] 1)"
    using reach_solo by blast
  have "task_step (map ascii_lower) (snapshot s [0 \<mapsto> (Some solo_session, Idle)] 1)
      (snapshot s [0 \<mapsto> (Some solo_session, Idle), 1 \<mapsto> (None, Idle)] 2)"
    by (rule task_stepI [OF wire_world_fold, where ev = Open]) simp
  from tasks_refine_membership_spec [OF y this] have "spec_step (abs_members s) (abs_members s)" by simp
  moreover have "abs_members s (''solo'', ''abcdef'', 1) = Some 0"
    using s by (simp add: abs_members_def solo_store_def solo_pool_def demo_info0_def)
  ultimately show ?thesis by blast
qed

section \<open>Mutexes\<close>

lemma changes_under_mutex:
  assumes "task_happens w ev y = Some y'" and lt: "ad < next_addr (store y)" and ne: "heap (store y') ad \<noteq> heap (store y) ad"
  shows "\<exists>i so p wk s'. ev = Advance i \<and> workers y i = Some (so, p) \<and>
    proceed w (sharding y) i so p (store y) = Some (wk, s') \<and> holding p = Some ad \<and>
    y' = y\<lparr>store := s', workers := (workers y)(i := wk)\<rparr>"
proof (cases ev)
  case Open
  with assms(1) ne show ?thesis by auto
next
  case Request
  with assms(1) ne show ?thesis by auto
next
  case (Receive i msg)
  with assms(1) have "store y' = store y" by (auto elim: task_receiveE simp del: task_happens.simps)
  with ne show ?thesis by simp
next
  case (Hangup i)
  with assms(1) have "store y' = store y" by (auto elim: task_hangupE simp del: task_happens.simps)
  with ne show ?thesis by simp
next
  case (Advance i)
  with assms(1) obtain so p wk s' where wk: "workers y i = Some (so, p)"
    and adv: "advance w (sharding y) (busy_shards y) i so p (store y) = Some (wk, s')"
    and y': "y' = y\<lparr>store := s', workers := (workers y)(i := wk)\<rparr>"
    by (auto elim: task_advanceE simp del: task_happens.simps)
  have "holding p = Some ad" using advance_heap [OF adv lt] ne by (auto simp: y')
  with wk advance_proceed [OF adv] Advance y' show ?thesis by blast
qed

text \<open>C3: Two tasks are never in the critical section of the same room, and an allocated room changes
  only in a step of the task that holds its mutex.\<close>

theorem rooms_change_under_mutex:
  assumes "tasks_reachable f y" and "task_happens w ev y = Some y'"
  shows "(\<forall>i j ad. holder y i ad \<and> holder y j ad \<longrightarrow> i = j) \<and>
    (\<forall>ad < next_addr (store y). heap (store y') ad \<noteq> heap (store y) ad \<longrightarrow> (\<exists>i. ev = Advance i \<and> holder y i ad))"
proof (intro conjI allI impI)
  have inv: "lock_inv y" by (rule tasks_reachable_locks [OF assms(1)])
  then show "i = j" if "holder y i ad \<and> holder y j ad" for i j ad
    using that unfolding lock_inv_def by blast
  show "\<exists>i. ev = Advance i \<and> holder y i ad"
    if "ad < next_addr (store y)" "heap (store y') ad \<noteq> heap (store y) ad" for ad
    using changes_under_mutex [OF assms(2) that] by (auto simp: holder_def)
qed

theorem rooms_change_under_mutex_witness:
  "\<exists>(y :: tasks) (y' :: tasks). heap (store y') 0 \<noteq> heap (store y) 0 \<and> (\<exists>i. holder y i 0)"
proof -
  obtain s where y: "tasks_reachable (map ascii_lower)
      (snapshot s [1 \<mapsto> (None, HelloLock late_hello demo_code 0)] 2)" (is "tasks_reachable _ ?y")
    and L: "locked s = {}" and r: "room_wf (heap s 0)" "members (heap s 0) = {}" "settings (heap s 0) = demo_settings"
      "banned (heap s 0) = {}" "next_addr s = 1"
    using reach_dropped by blast
  let ?s = "s\<lparr>locked := {0}\<rparr>"
  let ?y1 = "(snapshot ?s [1 \<mapsto> (None, HelloRun late_hello demo_code 0)] 2)"
  have y1: "tasks_reachable (map ascii_lower) ?y1"
    by (rule reach_step [OF y, where ev = "Advance 1"]) (simp add: advance_def acquire_def L)
  have "\<not> is_banned (heap s 0) (ClientHash ''g'')" "\<not> is_full (heap s 0)" "password_ok (heap s 0) None"
    using r by (simp_all add: is_banned_def is_full_def password_ok_def demo_settings_def default_settings_def)
  from join_room_succeeds [OF r(1) this, of 1] r(2) obtain pid joined r' lg' where
    j: "join_room wire_world demo_code 1 ''g'' None None (heap s 0, sends s) = (Inr (pid, joined), (r', lg'))"
    by (metis empty_iff one_neq_zero)
  from join_room_Inr(1) [OF r(1) j] have "members r' \<noteq> {}"
    by (auto simp: admitted_def dom_member_info [symmetric])
  with r(2) have ne: "r' \<noteq> heap s 0" by auto
  let ?y2 = "snapshot (release 0 (?s\<lparr>heap := (heap s)(0 := r'), sends := lg'\<rparr>))
     [1 \<mapsto> (Some \<lparr>s_app_key = ''solo'', s_room_code = demo_code, s_peer_id = pid\<rparr>, Reply [joined])] 2"
  have st: "task_happens wire_world (Advance 1) ?y1 = Some ?y2"
    using j by (simp add: advance_def hello_join_def late_hello_def)
  from rooms_change_under_mutex [OF y1 st] ne r(5) have "\<exists>i. holder ?y1 i 0" by auto
  moreover have "heap (store ?y2) 0 \<noteq> heap (store ?y1) 0" using ne by simp
  ultimately show ?thesis by blast
qed

section \<open>The game state\<close>

text \<open>Work under the mutex of a room, but for a move, leaves the blob alone.\<close>

lemma act_in_room_state:
  assumes "room_wf r" and "act_in_room w pid m (r, lg) = (out, (r', lg'))" and "\<forall>blob. m \<noteq> Move blob"
  shows "state r' = state r"
  using assms control_in_room_state [of r w pid]
  by (cases m) (auto simp: input_in_room_def state_in_room_def split: if_splits option.splits)

lemma move_in_room_state:
  assumes wf: "room_wf r" and run: "move_in_room w pid blob (r, lg) = (out, (r', lg'))" and ch: "state r' \<noteq> state r"
  shows "host_peer_id r = pid \<and> out = [MoveAccepted] \<and> state r' = blob \<and>
    \<not> (0 < min_players (settings r) \<and> word_of_nat (hm_len (clients r)) < min_players (settings r))"
proof -
  have acc: "out = [MoveAccepted]" "host_peer_id r = pid" "broadcast_state_update_and_prune w (r\<lparr>state := blob\<rparr>, lg) = (r', lg')"
    using move_in_room_cases [OF run] ch by auto
  have "room_wf (r\<lparr>state := blob\<rparr>)" using wf by simp
  from settled_state(1) [OF broadcast_state_update_and_prune_settled [OF this acc(3)]] acc run ch show ?thesis
    by (auto simp: move_in_room_def Let_def split: if_splits)
qed

text \<open>C11: Whatever the interleaving, the game state of a room changes only in a step of a task that handles
  a move with the room's mutex: the task's session is that of the present host, the room has its
  minimum of accepted clients, the blob of the move is the new state, and the move is answered as accepted.\<close>

theorem game_state_changes_by_host_move:
  assumes "tasks_reachable f y" and "task_happens w ev y = Some y'" and "ad < next_addr (store y)"
    and "state (heap (store y') ad) \<noteq> state (heap (store y) ad)"
  shows "\<exists>i ss blob. ev = Advance i \<and> workers y i = Some (Some ss, ActRun ss (Move blob) ad) \<and>
    host_peer_id (heap (store y) ad) = s_peer_id ss \<and>
    \<not> (0 < min_players (settings (heap (store y) ad)) \<and>
       word_of_nat (hm_len (clients (heap (store y) ad))) < min_players (settings (heap (store y) ad))) \<and>
    state (heap (store y') ad) = blob \<and> workers y' i = Some (Some ss, Reply [MoveAccepted])"
proof -
  let ?r = "heap (store y) ad"
  have inv: "tasks_inv f y" by (rule tasks_reachable_inv [OF assms(1)])
  then have wf: "room_wf (heap (store y) d)" for d by (simp add: tasks_inv_def server_wf_def)
  have "heap (store y') ad \<noteq> ?r" using assms(4) by auto
  with changes_under_mutex [OF assms(2,3)] obtain i so p wk s' where ev: "ev = Advance i" and wk: "workers y i = Some (so, p)"
    and pr: "proceed w (sharding y) i so p (store y) = Some (wk, s')" and h: "holding p = Some ad"
    and y': "y' = y\<lparr>store := s', workers := (workers y)(i := wk)\<rparr>"
    by blast
  have ok: "worker_ok f i so p (store y)" using inv wk by (simp add: tasks_inv_def)
  have ch: "state (heap s' ad) \<noteq> state ?r" using assms(4) by (simp add: y')
  from h show ?thesis
  proof (cases p rule: holding.cases)
    case (1 ss g d)
    obtain r lg where run: "leave_in_room w (s_peer_id ss) (?r, sends (store y)) = (r, lg)" by fastforce
    from 1 h pr have "heap s' ad = r" by (auto simp: with_room_def run Let_def)
    with leave_in_room_state [OF wf run] ch show ?thesis by simp
  next
    case (2 hl c d)
    obtain out so' s1 where j: "hello_join w (h_app_key hl) c d i (h_client_hash hl) (h_display_name hl) (h_password hl) (store y)
      = (out, so', s1)" by (metis surj_pair)
    have "server_wf f (store y)" using inv by (simp add: tasks_inv_def)
    from state_kept_hello_join [OF this j] assms(3) have "state (heap s1 ad) = state ?r" by (simp add: state_kept_def)
    moreover have "s' = release d s1" using pr 2 j by auto
    ultimately show ?thesis using ch by simp
  next
    case (3 ss m d)
    then have d: "d = ad" using h by simp
    obtain out r lg where act: "act_in_room w (s_peer_id ss) m (?r, sends (store y)) = (out, (r, lg))" by (metis surj_pair)
    with pr 3 d have s': "heap s' ad = r" "wk = Some (so, Reply out)" by (auto simp: release_def)
    show ?thesis
    proof (cases "\<exists>blob. m = Move blob")
      case False
      with act_in_room_state [OF wf act] ch s' show ?thesis by simp
    next
      case True
      then obtain blob where m: "m = Move blob" by blast
      with act have "move_in_room w (s_peer_id ss) blob (?r, sends (store y)) = (out, (r, lg))" by simp
      from move_in_room_state [OF wf this] ch s' ok 3 d m wk show ?thesis
        by (intro exI [of _ i] exI [of _ ss] exI [of _ blob]) (simp add: ev y')
    qed
  qed (use pr ch in auto)
qed

theorem game_state_changes_by_host_move_witness:
  "\<exists>(y :: tasks) (y' :: tasks) blob. workers y 0 = Some (Some solo_session, ActRun solo_session (Move blob) 0) \<and>
     state (heap (store y) 0) \<noteq> blob \<and> state (heap (store y') 0) = blob \<and>
     workers y' 0 = Some (Some solo_session, Reply [MoveAccepted])"
proof -
  obtain s where s: "solo_store demo_settings s" and y: "run_to (snapshot s [0 \<mapsto> (Some solo_session, Idle)] 1)"
    using reach_solo by blast
  let ?b = "1 # state (heap s 0)"
  let ?y = "\<lambda>s p. snapshot s [0 \<mapsto> (Some solo_session, p)] 1" and ?s1 = "s\<lparr>locked := {0}\<rparr>"
  have "run_to (?y s (ActLookup solo_session (Move ?b)))"
    by (rule reach_step [OF y, where ev = "Receive 0 (Move ?b)"]) (simp add: need_session_def)
  then have "run_to (?y s (ActLock solo_session (Move ?b) 0))"
    by (rule reach_step [where ev = "Advance 0"])
      (use solo_store_lookup [OF s] in \<open>simp add: advance_def solo_session_def\<close>)
  then have y1: "run_to (?y ?s1 (ActRun solo_session (Move ?b) 0))"
    by (rule reach_step [where ev = "Advance 0"]) (use s in \<open>simp add: advance_def acquire_def solo_store_def\<close>)
  have wf: "room_wf (heap s 0)" using tasks_reachable_inv [OF y] by (simp add: tasks_inv_def server_wf_def)
  obtain r lg where b: "broadcast_state_update_and_prune wire_world ((heap s 0)\<lparr>state := ?b\<rparr>, sends s) = (r, lg)" by fastforce
  have m: "move_in_room wire_world 1 ?b (heap s 0, sends s) = ([MoveAccepted], (r, lg))"
    using s b by (simp add: move_in_room_def solo_store_def demo_settings_def default_settings_def)
  have "room_wf ((heap s 0)\<lparr>state := ?b\<rparr>)" using wf by simp
  from settled_state(1) [OF broadcast_state_update_and_prune_settled [OF this b]] have st: "state r = ?b" by simp
  let ?y1 = "?y ?s1 (ActRun solo_session (Move ?b) 0)"
  let ?y2 = "?y (release 0 (?s1\<lparr>heap := (heap s)(0 := r), sends := lg\<rparr>)) (Reply [MoveAccepted])"
  have step: "task_happens wire_world (Advance 0) ?y1 = Some ?y2"
    using m by (simp add: advance_def solo_session_def)
  have "0 < next_addr (store ?y1)" "state (heap (store ?y2) 0) \<noteq> state (heap (store ?y1) 0)"
    using s st by (simp_all add: solo_store_def)
  from game_state_changes_by_host_move [OF y1 step this]
  have "state (heap (store ?y2) 0) = ?b \<and> workers ?y2 0 = Some (Some solo_session, Reply [MoveAccepted])" by auto
  then show ?thesis by (intro exI [of _ ?y1] exI [of _ ?y2] exI [of _ ?b]) simp
qed

section \<open>Progress\<close>

text \<open>C4: From every reachable state the tasks can finish all they have begun, by steps of their own,
  whatever the outcome of sends and lookups; and a run of such steps that cannot go on has left every
  task waiting for its next message and every mutex free.\<close>

theorem every_message_is_handled:
  assumes "tasks_reachable f y"
  shows "(\<exists>y'. (internal f)\<^sup>*\<^sup>* y y' \<and> all_idle y') \<and>
    (\<forall>y'. (internal f)\<^sup>*\<^sup>* y y' \<longrightarrow> (\<nexists>y''. internal f y' y'') \<longrightarrow> all_idle y' \<and> locked (store y') = {})"
  using settles [OF assms] stuck_all_idle internal_reachable [OF _ assms] by blast

theorem every_message_is_handled_witness:
  "\<exists>(y :: tasks) y'. workers y 1 = Some (None, HelloLock late_hello demo_code 0) \<and>
    (internal (map ascii_lower))\<^sup>*\<^sup>* y y' \<and> all_idle y'"
proof -
  obtain s where y: "tasks_reachable (map ascii_lower)
      (snapshot s [0 \<mapsto> (Some solo_session, Idle), 1 \<mapsto> (None, HelloLock late_hello demo_code 0)] 2)" (is "tasks_reachable _ ?y")
    using reach_late by blast
  have "workers ?y 1 = Some (None, HelloLock late_hello demo_code 0)" by simp
  with every_message_is_handled [OF y] show ?thesis by blast
qed

text \<open>C14: No deadlock, shard locks included.  A task that is handling a message can take its next
  step, or it waits, directly or through other tasks, for one that can take its next step; and no task
  waits for itself.\<close>

theorem no_task_deadlocks:
  assumes "tasks_reachable f y" and "workers y i = Some (so, p)" and "p \<noteq> Idle"
  shows "(\<exists>j. (waits_for f y)\<^sup>*\<^sup>* i j \<and> can_advance f j y) \<and> \<not> (waits_for f y)\<^sup>+\<^sup>+ i i"
  using busy_chain_ends [OF assms(1) assms] waits_for_chain [of f y i i] by blast

theorem no_task_deadlocks_witness:
  "\<exists>(y :: tasks) j. workers y 0 = Some (None, LeaveLock solo_session ThenEnd 0) \<and>
     \<not> can_advance (map ascii_lower) 0 y \<and> j \<noteq> 0 \<and>
     (waits_for (map ascii_lower) y)\<^sup>*\<^sup>* 0 j \<and> can_advance (map ascii_lower) j y"
proof -
  obtain s where L: "locked s = {0}" and y: "tasks_reachable (map ascii_lower)
      (snapshot s [0 \<mapsto> (None, LeaveLock solo_session ThenEnd 0), 1 \<mapsto> (None, HelloRun late_hello demo_code 0)] 2)"
      (is "tasks_reachable _ ?y")
    using reach_waiting by blast
  have w: "workers ?y 0 = Some (None, LeaveLock solo_session ThenEnd 0)" by simp
  have "task_happens wire_world (Advance 0) ?y = None" by (simp add: advance_def acquire_def L)
  then have stuck: "\<not> can_advance (map ascii_lower) 0 ?y"
    unfolding can_advance_def by (metis wire_world_fold option.distinct(1))
  have "LeaveLock solo_session ThenEnd 0 \<noteq> Idle" by simp
  from no_task_deadlocks [OF y w this] obtain j where
    j: "(waits_for (map ascii_lower) ?y)\<^sup>*\<^sup>* 0 j" "can_advance (map ascii_lower) j ?y" by blast
  have "j \<noteq> 0" using stuck j(2) by metis
  with stuck w j show ?thesis by blast
qed

text \<open>C12: There is no infinite run in which tasks only work on what they have received: in every
  interleaving, with every outcome of sends and lookups, the work ends.\<close>

theorem handling_terminates:
  "\<not> (\<exists>ys. tasks_reachable f (ys 0) \<and> (\<forall>n :: nat. internal f (ys n) (ys (Suc n))))"
proof
  assume "\<exists>ys. tasks_reachable f (ys 0) \<and> (\<forall>n :: nat. internal f (ys n) (ys (Suc n)))"
  then obtain ys where ys: "tasks_reachable f (ys 0)" "\<And>n. internal f (ys n) (ys (Suc n))" by blast
  have "tasks_reachable f (ys n)" for n
    by (induction n) (use ys in \<open>auto intro: more internal_task_step\<close>)
  with ys(2) have "\<forall>n. (ys (Suc n), ys n) \<in> {(y', y). tasks_reachable f y \<and> internal f y y'}" by simp
  with wf_internal [of f] show False unfolding wf_iff_no_infinite_down_chain by blast
qed

section \<open>Whole messages\<close>

text \<open>A whole message as one step: a task that receives a message (a listing apart) while nobody
  holds a lock, and is not interrupted, ends up with the answer, the session and the store that
  \<open>dispatch\<close> computes as one function.\<close>

lemma uninterrupted_task_is_dispatch:
  assumes "workers y i = Some (so, Idle)" and "locked (store y) = {}" and "others_quiet i y"
    and "w_case_fold w = f" and "\<forall>a. msg \<noteq> ListRooms a" and "dispatch w so i msg (store y) = (out, so', s')"
  shows "\<exists>y1. task_happens w (Receive i msg) y = Some y1 \<and>
    (internal f)\<^sup>*\<^sup>* y1 (y\<lparr>store := reply w i out s', workers := (workers y)(i \<mapsto> (so', Idle))\<rparr>)"
proof -
  let ?sd = "sharding y" and ?y1 = "y\<lparr>workers := (workers y)(i \<mapsto> begin_message so msg)\<rparr>"
  have "alone w ?sd i (Some (so', Reply out), s') (Some (so', Idle), reply w i out s')" by (rule alone_step) simp
  with alone_dispatch [OF assms(2,5,6)]
  have "alone w ?sd i (Some (begin_message so msg), store y) (Some (so', Idle), reply w i out s')"
    by (rule alone_trans)
  then have al: "alone w ?sd i (workers ?y1 i, store ?y1) (Some (so', Idle), reply w i out s')" by simp
  have "others_quiet i ?y1" using assms(3) by (simp add: others_quiet_def)
  then have "(internal f)\<^sup>*\<^sup>* ?y1 (y\<lparr>store := reply w i out s', workers := (workers y)(i \<mapsto> (so', Idle))\<rparr>)"
    using alone_internal [OF al refl assms(4)] by simp
  moreover have "task_happens w (Receive i msg) y = Some ?y1" using assms(1) by simp
  ultimately show ?thesis by blast
qed

section \<open>Races\<close>

text \<open>C20: A Hello can join a room that no longer exists for anybody else.  There is a reachable state in
  which a task has found a room and waits for its mutex while the room is registered nowhere any more,
  because its last member has left meanwhile; the task goes on with it, its client is told
  Joined with the code of that room and keeps the session, and the room is still registered nowhere.\<close>

theorem hello_can_join_a_dropped_room:
  "\<exists>y1 y2 h c ad ss m. tasks_reachable (map ascii_lower) y1 \<and> workers y1 1 = Some (None, HelloLock h c ad) \<and>
     (\<forall>a k. \<not> registered (store y1) a k ad) \<and>
     (internal (map ascii_lower))\<^sup>*\<^sup>* y1 y2 \<and> all_idle y2 \<and> workers y2 1 = Some (Some ss, Idle) \<and>
     s_peer_id ss \<in> members (heap (store y2) ad) \<and> (\<forall>a k. \<not> registered (store y2) a k ad) \<and>
     (1, m, Sent) \<in> set (sends (store y2)) \<and>
     (\<exists>hp sd st b. m = Joined c (s_peer_id ss) hp sd st b) \<and> s_room_code ss = c"
proof -
  obtain y1 y2 q m where y: "tasks_reachable (map ascii_lower) y1"
      "workers y1 = [1 \<mapsto> (None, HelloLock late_hello demo_code 0)]" "\<forall>a k. \<not> registered (store y1) a k 0"
      "(internal (map ascii_lower))\<^sup>*\<^sup>* y1 y2" "workers y2 = [1 \<mapsto> (Some (solo_session\<lparr>s_peer_id := q\<rparr>), Idle)]"
      "\<forall>a k. \<not> registered (store y2) a k 0" "q \<in> members (heap (store y2) 0)"
      "(1, m, Sent) \<in> set (sends (store y2))" "\<exists>hp sd st b. m = Joined demo_code q hp sd st b"
    using reach_orphan by blast
  then have "all_idle y2" by (simp add: all_idle_def)
  with y show ?thesis
    by (intro exI [of _ y1] exI [of _ y2] exI [of _ late_hello] exI [of _ demo_code] exI [of _ 0]
        exI [of _ "solo_session\<lparr>s_peer_id := q\<rparr>"] exI [of _ m]) (simp add: solo_session_def)
qed

text \<open>C21: A Hello that is refused can leave an empty room behind for good.  There is a reachable state in
  which one task has taken the last member out of a room and is about to remove the room from its
  pool, while another, whose Hello names the room, holds its mutex; the removal gives up, the
  Hello is refused for its password, and when every task has ended the room is still registered, and empty.\<close>

theorem refused_join_leaks_an_empty_room:
  "\<exists>y1 y2 ss h c k ad. tasks_reachable (map ascii_lower) y1 \<and>
     workers y1 0 = Some (None, LeaveRemove ss ThenEnd) \<and> workers y1 1 = Some (None, HelloRun h c ad) \<and>
     registered (store y1) (s_app_key ss) k ad \<and> members (heap (store y1) ad) = {} \<and>
     (task_step (map ascii_lower))\<^sup>*\<^sup>* y1 y2 \<and> workers y2 = Map.empty \<and>
     registered (store y2) (s_app_key ss) k ad \<and> members (heap (store y2) ad) = {} \<and>
     (1, Error ''invalid or missing room password'', Sent) \<in> set (sends (store y2))"
proof -
  obtain y1 y2 h where y: "tasks_reachable (map ascii_lower) y1"
      "workers y1 = [0 \<mapsto> (None, LeaveRemove solo_session ThenEnd), 1 \<mapsto> (None, HelloRun h demo_code 0)]"
      "registered (store y1) ''solo'' ''abcdef'' 0" "members (heap (store y1) 0) = {}"
      "(task_step (map ascii_lower))\<^sup>*\<^sup>* y1 y2" "workers y2 = Map.empty"
      "registered (store y2) ''solo'' ''abcdef'' 0" "members (heap (store y2) 0) = {}"
      "(1, Error ''invalid or missing room password'', Sent) \<in> set (sends (store y2))"
    using reach_leak by blast
  then show ?thesis
    by (intro exI [of _ y1] exI [of _ y2] exI [of _ solo_session] exI [of _ h] exI [of _ demo_code]
        exI [of _ "''abcdef''"] exI [of _ 0]) (simp add: solo_session_def)
qed

end
