(* ===== verification/Channels.thy ===== *)
theory Channels
  imports System Abstraction
begin

text \<open>
  Who is sent to.  Every entry of the send log is the outcome of one \<open>try_send\<close>, and an operation
  on a room sends to members of the room only; the answers of a handler go to its own client.
\<close>

section \<open>How the log grows\<close>

text \<open>\<open>grown w T lg lg'\<close>: \<open>lg'\<close> comes from \<open>lg\<close> by sends under \<open>w\<close> to channels in \<open>T\<close>.\<close>

inductive grown :: "world \<Rightarrow> conn_id set \<Rightarrow> send_log \<Rightarrow> send_log \<Rightarrow> bool" for w T where
  same [simp, intro!]: "grown w T lg lg"
| send: "grown w T lg lg1 \<Longrightarrow> c \<in> T \<Longrightarrow> grown w T lg (lg1 @ [(c, m, w_try_send w lg1 c m)])"

lemma grown_trans: "grown w T lg1 lg2 \<Longrightarrow> grown w T lg lg1 \<Longrightarrow> grown w T lg lg2"
  by (induction rule: grown.induct) (auto intro: send)

lemma grown_mono: "grown w T lg lg' \<Longrightarrow> T \<subseteq> S \<Longrightarrow> grown w S lg lg'"
  by (induction rule: grown.induct) (auto intro: send)

lemma grown_try_send: "c \<in> T \<Longrightarrow> grown w T lg (snd (try_send w c m lg))"
  using send [OF same, of c T w lg m] by (simp add: try_send_def Let_def)

lemma grown_append: "grown w T lg lg' \<Longrightarrow> \<exists>ex. lg' = lg @ ex \<and> (\<forall>(c, m, r) \<in> set ex. c \<in> T)"
  by (induction rule: grown.induct) auto

section \<open>Sending to the members of a room\<close>

definition chans :: "room \<Rightarrow> conn_id set" where
  "chans r = tx ` ran (member_info r)"

lemma chansI: "member_info r pid = Some info \<Longrightarrow> tx info \<in> chans r"
  unfolding chans_def by (blast intro: ranI)

lemma chans_keeps: "keeps r r' \<Longrightarrow> chans r' \<subseteq> chans r"
proof
  fix c
  assume k: "keeps r r'" and "c \<in> chans r'"
  then obtain pid info where "member_info r' pid = Some info" "c = tx info" by (auto simp: chans_def ran_def)
  moreover from this(1) k have "member_info r pid = Some info" by (auto simp: keeps_def map_le_def dom_def)
  ultimately show "c \<in> chans r" by (simp add: chansI)
qed

lemma chans_clients: "room_wf r \<Longrightarrow> (pid, info) \<in> set (table (clients r)) \<Longrightarrow> tx info \<in> chans r"
  using hm_entries [OF room_wfD(1)] by (intro chansI [of r pid]) (simp add: member_info_def)

lemma chans_pending: "room_wf r \<Longrightarrow> (pid, info) \<in> set (table (pending r)) \<Longrightarrow> tx info \<in> chans r"
proof -
  assume wf: "room_wf r" and "(pid, info) \<in> set (table (pending r))"
  then have p: "hm_get (pending r) pid = Some info" using hm_entries [OF room_wfD(2)] by blast
  then have "pid \<notin> client_ids r" using room_wfD(3) [OF wf] by (auto simp: pending_ids_def)
  with p show ?thesis by (intro chansI [of r pid]) (auto simp: member_info_def client_ids_def split: option.split)
qed

lemma grown_send_each:
  "send_each w m es lg = (dead, lg') \<Longrightarrow> \<forall>(pid, info) \<in> set es. tx info \<in> T \<Longrightarrow> grown w T lg lg'"
proof (induction es arbitrary: lg dead)
  case (Cons e es)
  obtain pid info where e: "e = (pid, info)" by fastforce
  obtain res lg1 where t: "try_send w (tx info) m lg = (res, lg1)" by fastforce
  obtain d lg2 where s: "send_each w m es lg1 = (d, lg2)" by fastforce
  have "lg2 = lg'" using Cons.prems(1) e t s by (auto split: if_splits)
  moreover have "grown w T lg lg1" using grown_try_send [of "tx info" T w lg m] Cons.prems(2) e t by simp
  moreover have "grown w T lg1 lg'" using Cons.IH [of lg1 d] s \<open>lg2 = lg'\<close> Cons.prems(2) by auto
  ultimately show ?case using grown_trans by blast
qed simp

lemma grown_broadcast:
  assumes wf: "room_wf r" and T: "chans r \<subseteq> T" and run: "broadcast_retain_connected w m (r, lg) = ((dead, nh), (r', lg'))"
  shows "grown w T lg lg'"
proof -
  from run have "send_each w m (table (clients r)) lg = (dead, lg')"
    by (auto simp: broadcast_retain_connected_def split: prod.splits)
  then show ?thesis by (rule grown_send_each) (use chans_clients [OF wf] T in auto)
qed

lemma grown_state_update:
  assumes wf: "room_wf r" and T: "chans r \<subseteq> T"
    and run: "broadcast_state_update_retain_connected w (r, lg) = ((dead, nh), (r', lg'))"
  shows "grown w T lg lg'"
proof -
  let ?m = "StateUpdate (state r)"
  from run obtain d1 lg1 d2 where s: "send_each w ?m (table (clients r)) lg = (d1, lg1)"
    "send_each w ?m (table (pending r)) lg1 = (d2, lg')"
    by (auto simp: broadcast_state_update_retain_connected_def Let_def split: prod.splits)
  have "grown w T lg lg1" by (rule grown_send_each [OF s(1)]) (use chans_clients [OF wf] T in auto)
  moreover have "grown w T lg1 lg'" by (rule grown_send_each [OF s(2)]) (use chans_pending [OF wf] T in auto)
  ultimately show ?thesis using grown_trans by blast
qed

text \<open>What is left of the room sends to nobody else.\<close>

lemma chans_pruned: "pruned D r r' \<Longrightarrow> chans r \<subseteq> T \<Longrightarrow> chans r' \<subseteq> T"
  using chans_keeps [OF keeps_pruned] by blast

lemma grown_notify_left:
  "room_wf r \<Longrightarrow> chans r \<subseteq> T \<Longrightarrow> notify_left w ps nh0 (r, lg) = ((next_dead, nh), (r', lg')) \<Longrightarrow>
   grown w T lg lg'"
proof (induction ps arbitrary: r lg nh0 next_dead)
  case (Cons p ps)
  obtain d h r1 lg1 where b: "broadcast_retain_connected w (PeerLeft p) (r, lg) = ((d, h), (r1, lg1))"
    by (metis surj_pair)
  obtain nd where n: "notify_left w ps (if h \<noteq> None then h else nh0) (r1, lg1) = ((nd, nh), (r', lg'))"
    using Cons.prems(3) b by (auto split: prod.splits)
  from bc.bc_pruned [OF Cons.prems(1) b] have p: "pruned (set d) r r1" by blast
  show ?case
    using grown_broadcast [OF Cons.prems(1,2) b] Cons.IH [OF pruned_wf [OF p] chans_pruned [OF p Cons.prems(2)] n]
      grown_trans by blast
qed simp

lemma grown_prune_loop:
  assumes "room_wf r" and "chans r \<subseteq> T" and "prune_loop w dead nh0 (r, lg) = (nh, (r', lg'))"
  shows "grown w T lg lg'"
  using assms
proof (induction w dead nh0 "(r, lg)" arbitrary: r lg rule: prune_loop.induct)
  case (1 w dead nh0 r lg)
  show ?case
  proof (cases "dead = []")
    case True
    with "1.prems"(3) show ?thesis by (simp add: prune_loop.simps)
  next
    case False
    obtain nd nh1 r1 lg1 where n: "notify_left w dead nh0 (r, lg) = ((nd, nh1), (r1, lg1))"
      by (metis surj_pair)
    with False "1.prems"(3) have rest: "prune_loop w nd nh1 (r1, lg1) = (nh, (r', lg'))"
      by (simp add: prune_loop.simps [of w dead])
    from notify_left_result [OF "1.prems"(1) n] obtain e where p: "pruned (set nd) r r1" by blast
    from "1.hyps" [OF False n [symmetric] _ _ _ pruned_wf [OF p] chans_pruned [OF p "1.prems"(2)] rest]
      grown_notify_left [OF "1.prems"(1,2) n] grown_trans show ?thesis by blast
  qed
qed

lemma grown_prune_and_announce:
  assumes wf: "room_wf r" and T: "chans r \<subseteq> T" and run: "prune_and_announce w ((dead, nh0), (r, lg)) = (r', lg')"
  shows "grown w T lg lg'"
proof -
  obtain nh r1 lg1 where l: "prune_loop w dead nh0 (r, lg) = (nh, (r1, lg1))" by (metis surj_pair)
  note g = grown_prune_loop [OF wf T l]
  from prune_loop_result [OF wf l] obtain E where p: "pruned E r r1" by blast
  show ?thesis
  proof (cases nh)
    case None
    with run l g show ?thesis by (simp add: prune_and_announce_def announce_host_def)
  next
    case (Some h)
    obtain d n r2 lg2 where b: "broadcast_retain_connected w (RoomEvent (HostTransferred h)) (r1, lg1) = ((d, n), (r2, lg2))"
      by (metis surj_pair)
    with run l Some have "lg' = lg2" by (simp add: prune_and_announce_def announce_host_def)
    with grown_broadcast [OF pruned_wf [OF p] chans_pruned [OF p T] b] g show ?thesis using grown_trans by blast
  qed
qed

lemma grown_broadcast_and_prune:
  assumes wf: "room_wf r" and T: "chans r \<subseteq> T" and run: "broadcast_and_prune w m (r, lg) = (r', lg')"
  shows "grown w T lg lg'"
proof -
  obtain dead nh r1 lg1 where b: "broadcast_retain_connected w m (r, lg) = ((dead, nh), (r1, lg1))" by (metis surj_pair)
  from bc.bc_pruned [OF wf b] have p: "pruned (set dead) r r1" by blast
  have "prune_and_announce w ((dead, nh), (r1, lg1)) = (r', lg')" using run b by (simp add: broadcast_and_prune_def)
  from grown_prune_and_announce [OF pruned_wf [OF p] chans_pruned [OF p T] this] grown_broadcast [OF wf T b]
  show ?thesis using grown_trans by blast
qed

lemma grown_broadcast_state:
  assumes wf: "room_wf r" and T: "chans r \<subseteq> T" and run: "broadcast_state_update_and_prune w (r, lg) = (r', lg')"
  shows "grown w T lg lg'"
proof -
  obtain dead nh r1 lg1 where b: "broadcast_state_update_retain_connected w (r, lg) = ((dead, nh), (r1, lg1))"
    by (metis surj_pair)
  from su.bc_pruned [OF wf b] have p: "pruned (set dead) r r1" by blast
  have "prune_and_announce w ((dead, nh), (r1, lg1)) = (r', lg')"
    using run b by (simp add: broadcast_state_update_and_prune_def)
  from grown_prune_and_announce [OF pruned_wf [OF p] chans_pruned [OF p T] this] grown_state_update [OF wf T b]
  show ?thesis using grown_trans by blast
qed

section \<open>The handlers\<close>

text \<open>An operation on a room that sends to nobody but its members.\<close>

locale sending_operation = room_operation +
  fixes w :: world
  assumes act_grown: "room_wf r \<Longrightarrow> act (r, lg) = (out, (r', lg')) \<Longrightarrow> grown w (chans r) lg lg'"
begin

lemma in_session_room_grown:
  assumes wf: "server_wf f s" and run: "in_session_room w ss act s = (out, s')"
    and T: "\<And>a k ad. registered s a k ad \<Longrightarrow> chans (heap s ad) \<subseteq> T"
  shows "grown w T (sends s) (sends s')"
proof (cases "lookup_room w s (s_app_key ss) (s_room_code ss)")
  case None
  with run show ?thesis by (auto simp: in_session_room_def)
next
  case (Some ad)
  obtain r lg where a: "act (heap s ad, sends s) = (out, (r, lg))" and "sends s' = lg"
    using run Some by (auto simp: in_session_room_def split: prod.splits)
  moreover have "registered s (s_app_key ss) (w_case_fold w (code_str (s_room_code ss))) ad"
    using Some lookup_registered [OF refl] by blast
  ultimately show ?thesis using grown_mono [OF act_grown [OF server_wfD(1) [OF wf] a] T] by blast
qed

end

lemma grown_leave:
  assumes wf: "room_wf r" and run: "leave_in_room w pid (r, lg) = (r', lg')"
  shows "grown w (chans r) lg lg'"
proof -
  let ?r0 = "remove_member pid r"
  note T0 = chans_keeps [OF keeps_remove_member [OF wf]]
  have wf0: "room_wf ?r0" using wf by simp
  obtain r1 lg1 where b: "broadcast_and_prune w (PeerLeft pid) (?r0, lg) = (r1, lg1)" by fastforce
  note g1 = grown_broadcast_and_prune [OF wf0 T0 b]
  from settled_pruned [OF broadcast_and_prune_settled [OF wf0 b]] obtain D where p: "pruned D ?r0 r1" by blast
  note T1 = chans_pruned [OF p T0]
  show ?thesis
  proof (cases "host_peer_id r1 = pid \<and> hm_first_key (clients r1) \<noteq> None")
    case True
    then obtain h where h: "hm_first_key (clients r1) = Some h" by blast
    with True b run have b2: "broadcast_and_prune w (RoomEvent (HostTransferred h)) (r1\<lparr>host_peer_id := h\<rparr>, lg1) = (r', lg')"
      by (simp add: leave_in_room_def)
    have "room_wf (r1\<lparr>host_peer_id := h\<rparr>)" "chans (r1\<lparr>host_peer_id := h\<rparr>) \<subseteq> chans r"
      using pruned_wf [OF p] T1 by (simp_all add: chans_def)
    from grown_broadcast_and_prune [OF this b2] g1 show ?thesis using grown_trans by blast
  next
    case False
    with b run have "lg' = lg1" by (auto simp: leave_in_room_def split: if_splits option.splits)
    with g1 show ?thesis by simp
  qed
qed

lemma grown_move:
  assumes wf: "room_wf r" and run: "move_in_room w pid blob (r, lg) = (out, (r', lg'))"
  shows "grown w (chans r) lg lg'"
proof -
  consider "lg' = lg" | "broadcast_state_update_and_prune w (r\<lparr>state := blob\<rparr>, lg) = (r', lg')"
    using run by (auto simp: move_in_room_def Let_def split: if_splits prod.splits)
  then show ?thesis
  proof cases
    case 2
    have "room_wf (r\<lparr>state := blob\<rparr>)" "chans (r\<lparr>state := blob\<rparr>) \<subseteq> chans r" using wf by (simp_all add: chans_def)
    from grown_broadcast_state [OF this 2] show ?thesis .
  qed simp
qed

lemma grown_input:
  assumes "room_wf r" and "input_in_room w pid blob (r, lg) = (out, (r', lg'))"
  shows "grown w (chans r) lg lg'"
  using assms(2) chansI [of r "host_peer_id r"]
  by (auto simp: input_in_room_def member_info_def split: if_splits option.splits intro!: grown_try_send)

text \<open>Room control: a send to a member that may just have been removed, then a broadcast to the rest.\<close>

lemma grown_evict:
  assumes wf: "room_wf r" and c: "member_info r pid = Some info" and k: "keeps r r1"
    and run: "broadcast_and_prune w m (r1, snd (try_send w (tx info) ev lg)) = (r', lg')"
  shows "grown w (chans r) lg lg'"
  using grown_trans [OF grown_broadcast_and_prune [OF keeps_wf [OF k] chans_keeps [OF k] run]]
    grown_try_send [OF chansI [OF c]] by blast

lemma grown_control:
  assumes wf: "room_wf r" and run: "control_in_room w me rc (r, lg) = (out, (r', lg'))"
  shows "grown w (chans r) lg lg'"
proof (cases "host_peer_id r = me")
  case False
  with run show ?thesis by simp
next
  case host: True
  have bcast: "grown w (chans r) lg lg'" if "broadcast_and_prune w m (r1, lg) = (r', lg')" "keeps r r1" for m r1
    by (rule grown_broadcast_and_prune [OF keeps_wf [OF that(2)] chans_keeps [OF that(2)] that(1)])
  have same: "keeps r (r\<lparr>settings := st\<rparr>)" "keeps r (r\<lparr>host_peer_id := h\<rparr>)" for st h
    using wf by (simp_all add: keeps_def)
  show ?thesis
  proof (cases rc)
    case (UpdateSettings st)
    with run host show ?thesis by (auto intro: bcast same)
  next
    case (AcceptPeer pid)
    with run host show ?thesis by (auto split: option.splits intro: bcast keeps_accept [OF wf])
  next
    case (DenyPeer pid)
    show ?thesis
    proof (cases "hm_get (pending r) pid")
      case (Some info)
      then have "tx info \<in> chans r" using chans_pending [OF wf] hm_entries [OF room_wfD(2) [OF wf]] by blast
      with run host DenyPeer Some show ?thesis by (auto intro: grown_try_send)
    qed (use run host DenyPeer in auto)
  next
    case (Kick pid)
    show ?thesis
    proof (cases "hm_get (clients r) pid")
      case None
      with run host Kick show ?thesis by (auto intro: bcast keeps_refl [OF wf])
    next
      case (Some info)
      then have "member_info r pid = Some info" by (simp add: member_info_def)
      moreover have "keeps r (r\<lparr>clients := hm_remove pid (clients r)\<rparr>)"
        using keeps_remove_client [OF wf, of pid] by (simp add: remove_client_def)
      ultimately show ?thesis using run host Kick Some by (auto intro: grown_evict [OF wf])
    qed
  next
    case (Ban pid)
    show ?thesis
    proof (cases "hm_get (clients r) pid")
      case None
      with run host Ban show ?thesis by (auto intro: bcast keeps_refl [OF wf])
    next
      case (Some info)
      then have "member_info r pid = Some info" by (simp add: member_info_def)
      moreover have "keeps r (r\<lparr>clients := hm_remove pid (clients r), banned := bn\<rparr>)" for bn
        using keeps_remove_client [OF wf, of pid] by (simp add: remove_client_def keeps_def)
      ultimately show ?thesis using run host Ban Some by (auto intro: grown_evict [OF wf])
    qed
  next
    case (TransferHost pid)
    with run host show ?thesis by (auto split: if_splits intro: bcast same)
  qed (use run host in auto)
qed

interpretation move_send: sending_operation "move_in_room w pid blob" w
  by unfold_locales (rule grown_move)

interpretation input_send: sending_operation "input_in_room w pid blob" w
  by unfold_locales (rule grown_input)

interpretation state_send: sending_operation state_in_room w
  by unfold_locales (auto simp: state_in_room_def)

interpretation control_send: sending_operation "control_in_room w me rc" w
  by unfold_locales (rule grown_control)

section \<open>Whole messages\<close>

text \<open>\<open>covers T s\<close>: the members of registered rooms are on channels in \<open>T\<close>.\<close>

definition covers :: "conn_id set \<Rightarrow> server \<Rightarrow> bool" where
  "covers T s \<longleftrightarrow> (\<forall>a k pid i. member_at s a k pid i \<longrightarrow> tx i \<in> T)"

lemma covers_fewer: "covers T s \<Longrightarrow> fewer s s' \<Longrightarrow> covers T s'"
  unfolding covers_def fewer_def by blast

lemma covers_chans: "covers T s \<Longrightarrow> registered s a k ad \<Longrightarrow> chans (heap s ad) \<subseteq> T"
  unfolding covers_def member_at_def chans_def ran_def by blast

lemma grown_leave_room:
  assumes wf: "server_wf f s" and T: "covers T s"
  shows "grown w T (sends s) (sends (leave_room w a c pid s))"
proof (cases "lookup_room w s a c")
  case None
  then show ?thesis by (simp add: leave_room_def)
next
  case (Some ad)
  obtain r lg where run: "leave_in_room w pid (heap s ad, sends s) = (r, lg)" by fastforce
  have "registered s a (w_case_fold w (code_str c)) ad" using Some lookup_registered [OF refl] by blast
  from grown_mono [OF grown_leave [OF server_wfD(1) [OF wf] run] covers_chans [OF T this]]
  have "grown w T (sends s) lg" .
  moreover have "sends (leave_room w a c pid s) = lg"
    using Some run by (simp add: leave_room_def with_room_def Let_def drop_if_empty_def split: option.split)
  ultimately show ?thesis by simp
qed

lemma grown_leave_old:
  assumes "server_wf f s" and "covers T s"
  shows "grown w T (sends s) (sends (leave_old w so s))"
  using grown_leave_room [OF assms] by (simp add: leave_old_def split: option.split)

lemma grown_notify_joined:
  "\<forall>(q, info) \<in> set es. q \<noteq> pid \<longrightarrow> tx info \<in> T \<Longrightarrow> grown w T lg (notify_joined w pid m es lg)"
proof (induction es arbitrary: lg)
  case (Cons e es)
  obtain q info where e: "e = (q, info)" by fastforce
  let ?lg = "if q \<noteq> pid then snd (try_send w (tx info) m lg) else lg"
  have "grown w T lg ?lg" using Cons.prems e grown_try_send by auto
  moreover have "grown w T ?lg (notify_joined w pid m es ?lg)" by (rule Cons.IH) (use Cons.prems in auto)
  ultimately show ?case using e grown_trans by fastforce
qed simp

lemma grown_join:
  assumes wf: "room_wf r" and run: "join_room w c i h d pw (r, lg) = (res, (r', lg'))"
  shows "grown w (chans r) lg lg'"
proof (cases res)
  case (Inl e)
  with join_room_Inl run have "lg' = lg" by blast
  then show ?thesis by simp
next
  case (Inr x)
  obtain pid joined where x: "res = Inr (pid, joined)" using Inr by (cases x) auto
  have adm: "member_info r' = (member_info r)(pid \<mapsto> newcomer r i h d)" "room_wf r'"
    using join_room_Inr(1) [OF wf run [unfolded x]] by (simp_all add: admitted_def)
  have "tx info \<in> chans r" if "(q, info) \<in> set (table (clients r'))" "q \<noteq> pid" for q info
  proof -
    have "member_info r' q = Some info"
      using that(1) hm_entries [OF room_wfD(1) [OF adm(2)]] by (simp add: member_info_def)
    with adm(1) that(2) show ?thesis by (intro chansI [of r q]) simp
  qed
  then have n: "grown w (chans r) lg (notify_joined w pid m (table (clients r')) lg)" for m
    by (intro grown_notify_joined) auto
  have "lg' = lg \<or> (\<exists>m. lg' = notify_joined w pid m (table (clients r')) lg)"
    using run x by (auto simp: join_room_def admit_peer_def Let_def split: if_splits option.splits prod.splits)
  with n show ?thesis by auto
qed

lemma sends_hello_admit: "hello_admit w a rc h d t pw s = (res, s') \<Longrightarrow> sends s' = sends s"
  by (auto simp: hello_admit_def Let_def split: sum.splits if_splits prod.splits)

lemma grown_hello:
  assumes wf: "server_wf f s" and b: "backed f sess s" and f: "w_case_fold w = f" and T: "covers T s"
    and run: "handle_hello w (sess i) i a rc h d t pw s = (out, so, s')"
  shows "grown w T (sends s) (sends s')"
proof -
  let ?s0 = "leave_old w (sess i) s"
  note lo = backed_leave_old [OF b wf f, of i]
  obtain r1 s1 where ad: "hello_admit w a rc h d t pw ?s0 = (r1, s1)" by fastforce
  note wf0 = store_step_wf [OF wf lo(2)]
  note st1 = hello_admit_step [OF wf0 ad]
  note b1 = backed_store_step [OF lo(1) st1] and wf1 = store_step_wf [OF wf0 st1]
  have fw1: "fewer s s1" by (rule fewer_store_step [OF store_step_trans [OF lo(2) st1]])
  have g1: "grown w T (sends s) (sends s1)"
    using grown_leave_old [OF wf T, of w "sess i"] sends_hello_admit [OF ad] by simp
  show ?thesis
  proof (cases r1)
    case (Inl e)
    with run ad g1 show ?thesis by (simp add: handle_hello_def)
  next
    case (Inr u)
    obtain r2 s2 where hr: "hello_room w a rc s1 = (r2, s2)" by fastforce
    note h2 = hello_room_step [OF wf1 b1 f hr]
    show ?thesis
    proof (cases r2)
      case (Inl e)
      with run ad hr \<open>r1 = Inr u\<close> g1 h2 show ?thesis by (simp add: handle_hello_def)
    next
      case (Inr x)
      obtain c ad' where x: "x = (c, ad')" by fastforce
      obtain res r lg where j: "join_room w c i h d pw (heap s2 ad', sends s2) = (res, (r, lg))" by (metis surj_pair)
      have "sends s' = lg"
        using run ad hr \<open>r1 = Inr u\<close> Inr x j
        by (auto simp: handle_hello_def hello_join_def Let_def split: sum.splits prod.splits)
      moreover have reg: "registered s2 a (f (code_str c)) ad'" and wf2: "server_wf f s2" and "fewer s1 s2" "sends s2 = sends s1"
        using h2 Inr x by auto
      moreover have "covers T s2" using covers_fewer [OF T fewer_trans [OF fw1 \<open>fewer s1 s2\<close>]] .
      ultimately show ?thesis
        using grown_mono [OF grown_join [OF server_wfD(1) [OF wf2] j] covers_chans] g1 grown_trans by metis
    qed
  qed
qed

lemma grown_dispatch:
  assumes wf: "server_wf f s" and b: "backed f sess s" and f: "w_case_fold w = f" and T: "covers T s"
    and run: "dispatch w (sess i) i msg s = (out, so, s')"
  shows "grown w T (sends s) (sends s')"
proof (cases msg)
  case (Hello a rc h d t pw)
  with run grown_hello [OF wf b f T] show ?thesis by (simp add: dispatch_defs)
next
  case (RoomControl rc)
  show ?thesis
  proof (cases "sess i")
    case None
    with run RoomControl show ?thesis by (auto simp: dispatch_defs with_session_def)
  next
    case (Some ss)
    with run RoomControl have hc: "handle_control w ss rc s = (out, so, s')"
      by (simp add: dispatch_defs with_session_def)
    consider "rc = Leave" | "s' = s"
      | "in_session_room w ss (control_in_room w (s_peer_id ss) rc) s = (out, s')"
      using hc by (cases rc) (auto simp: handle_control_def split: prod.splits)
    then show ?thesis
      by cases (use hc grown_leave_room [OF wf T] control_send.in_session_room_grown [OF wf] covers_chans [OF T]
        in \<open>auto simp: handle_control_def\<close>)
  qed
next
  case (Move blob)
  with run move_send.in_session_room_grown [OF wf _ covers_chans [OF T]] show ?thesis
    by (cases "sess i") (auto simp: dispatch_defs with_session_def split: prod.splits)
next
  case (Input blob)
  with run input_send.in_session_room_grown [OF wf _ covers_chans [OF T]] show ?thesis
    by (cases "sess i") (auto simp: dispatch_defs with_session_def split: prod.splits)
next
  case RequestState
  with run state_send.in_session_room_grown [OF wf _ covers_chans [OF T]] show ?thesis
    by (cases "sess i") (auto simp: dispatch_defs with_session_def split: prod.splits)
next
  case (ListRooms a)
  with run show ?thesis
    by (auto simp: dispatch_defs handle_list_rooms_def Let_def split: prod.splits if_splits option.splits)
qed (use run in \<open>auto simp: dispatch_defs\<close>)

lemma grown_send_replies: "i \<in> T \<Longrightarrow> grown w T lg (send_replies w i ms lg)"
proof (induction ms arbitrary: lg)
  case (Cons m ms)
  from grown_trans [OF Cons.IH [OF Cons.prems] grown_try_send [OF Cons.prems]] show ?case by simp
qed simp

end
