(* ===== verification/Receivers.thy ===== *)
theory Receivers
  imports Channels Demo_Run
begin

text \<open>
  Which channels a running server finds closed.  The channel of a connection is a \<open>tokio\<close> channel whose
  receiver lives as long as the loop of the connection (it is a local of \<open>handle_connection\<close> and
  \<open>handle_ws_connection\<close>).  Documented behaviour of such a channel, that \<open>try_send\<close> reports \<open>Closed\<close> only when
  the receiver is gone, is the hypothesis \<open>receivers_live\<close> on every step; whether a send succeeds or
  finds the queue full stays open.
\<close>

section \<open>The hypothesis\<close>

definition serving :: "system \<Rightarrow> conn_id \<Rightarrow> bool" where
  "serving y i = (case slots y i of Some (Serving tr c) \<Rightarrow> True | _ \<Rightarrow> False)"

lemma serving_iff: "serving y i \<longleftrightarrow> (\<exists>tr c. slots y i = Some (Serving tr c))"
  by (auto simp: serving_def split: option.split slot.split)

definition receivers_live :: "system \<Rightarrow> world \<Rightarrow> bool" where
  "receivers_live y w \<longleftrightarrow> (\<forall>lg c m. serving y c \<longrightarrow> w_try_send w lg c m \<noteq> Closed)"

text \<open>The states that are reached by steps under this hypothesis.\<close>

inductive served :: "(string \<Rightarrow> string) \<Rightarrow> system \<Rightarrow> bool" where
  served_start: "served f (system_init w)"
| served_step: "served f y \<Longrightarrow> w_case_fold w = f \<Longrightarrow> receivers_live y w \<Longrightarrow> happens w ev y = Some y' \<Longrightarrow> served f y'"

lemma served_reachable: "served f y \<Longrightarrow> reachable f y"
  by (induction rule: served.induct) (auto intro: reachable.intros sys_step.intros)

lemma served_run_events:
  "served f y \<Longrightarrow> run_events es y = Some y' \<Longrightarrow>
   \<forall>(w, ev) \<in> set es. w_case_fold w = f \<and> (\<forall>lg c m. w_try_send w lg c m \<noteq> Closed) \<Longrightarrow> served f y'"
proof (induction es arbitrary: y)
  case (Cons e es)
  obtain w ev where e: "e = (w, ev)" by fastforce
  with Cons.prems(2) obtain y1 where y1: "happens w ev y = Some y1" "run_events es y1 = Some y'"
    by (auto simp: bind_eq_Some_conv)
  have "w_case_fold w = f" "receivers_live y w" using Cons.prems(3) by (auto simp: e receivers_live_def)
  then have "served f y1" by (rule served_step [OF Cons.prems(1) _ _ y1(1)])
  with Cons.IH y1(2) Cons.prems(3) show ?case by simp
qed simp

section \<open>A step sends to running connections only\<close>

lemma covers_serving:
  assumes "sys_inv f y"
  shows "covers {i. serving y i} (srv y)"
  unfolding covers_def
proof (intro allI impI)
  fix a k pid info
  assume "member_at (srv y) a k pid info"
  with assms have "session_for f (sess_of y (tx info)) a k pid"
    unfolding sys_inv_def backed_member_at by blast
  then show "tx info \<in> {i. serving y i}"
    by (auto simp: session_for_def sess_of_def serving_def split: option.splits slot.splits)
qed

lemma grown_payload:
  assumes "server_wf f s" and "backed f sess s" and "w_case_fold w = f" and "sess (c_tx c) = c_session c"
    and T: "covers T s" "c_tx c \<in> T"
  shows "grown w T (sends s) (sends (round_server (handle_payload w now later p c s)))"
proof (cases "RATE_LIMIT_MAX < rate_count (count_frame now c)")
  case True
  then show ?thesis by (simp add: handle_payload_def)
next
  case False
  show ?thesis
  proof (cases "decode w p")
    case (Inl e)
    from grown_send_replies [OF T(2), of w "sends s" "[Error ''invalid message'']"] Inl False
    show ?thesis by (simp add: handle_payload_def Let_def)
  next
    case (Inr msg)
    obtain out so s' where d: "dispatch w (sess (c_tx c)) (c_tx c) msg s = (out, so, s')" by (metis surj_pair)
    from grown_trans [OF grown_send_replies [OF T(2)] grown_dispatch [OF assms(1-3) T(1) d]]
    show ?thesis using Inr False d assms(4) by (simp add: handle_payload_def Let_def)
  qed
qed

lemma grown_tcp_round:
  assumes "server_wf f s" and "backed f sess s" and "w_case_fold w = f" and "sess (c_tx c) = c_session c"
    and "covers T s" and "c_tx c \<in> T"
  shows "grown w T (sends s) (sends (round_server (tcp_round w now later ev c s)))"
  by (cases ev) (use grown_payload [OF assms] in \<open>auto split: sum.split option.split\<close>)

lemma grown_ws_round:
  assumes "server_wf f s" and "backed f sess s" and "w_case_fold w = f" and "sess (c_tx c) = c_session c"
    and "covers T s" and T: "c_tx c \<in> T"
  shows "grown w T (sends s) (sends (round_server (ws_round w now later ev c s)))"
proof (cases ev)
  case (WsBinary p)
  have "grown w T (sends s) (sends (reply w (c_tx c) [Error e] s))" for e
    using grown_send_replies [OF T, of w "sends s" "[Error e]"] by simp
  with WsBinary grown_payload [OF assms] show ?thesis by (auto split: sum.split)
qed (auto split: sum.split)

lemma grown_after_round:
  assumes inv: "sys_inv f y" and f: "w_case_fold w = f" and ok: "round_ok f (sess_of y) c (srv y) res"
    and g: "grown w {i. serving y i} (sends (srv y)) (sends (round_server res))"
  shows "grown w {i. serving y i} (sends (srv y)) (sends (srv (after_round w i tr res y)))"
proof (cases res)
  case (Continue c' s')
  with g show ?thesis by (simp add: after_round_def)
next
  case (Break e c' s')
  have "server_wf f (srv y)" using inv by (simp add: sys_inv_def)
  moreover have "s' = srv y" using ok Break by (simp add: round_ok_def)
  ultimately have "grown w {i. serving y i} (sends (srv y)) (sends (snd (close_connection w c' s')))"
    using grown_leave_room [OF _ covers_serving [OF inv]] by (simp add: close_connection_def split: option.split)
  with Break show ?thesis by (simp add: after_round_def end_task_def)
qed

lemma happens_grown:
  assumes inv: "sys_inv f y" and f: "w_case_fold w = f" and hp: "happens w ev y = Some y'"
  shows "grown w {i. serving y i} (sends (srv y)) (sends (srv y'))"
proof -
  have wf: "server_wf f (srv y)" and b: "backed f (sess_of y) (srv y)" and ok: "slots_ok y"
    using inv by (auto simp: sys_inv_def)
  have at: "sess_of y (c_tx c) = c_session c" "rate_count c \<le> RATE_LIMIT_MAX" "c_tx c \<in> {i. serving y i}"
    if "slots y i = Some (Serving tr c)" for i tr c
    using that ok by (auto simp: slots_ok_def sess_of_def serving_def)
  note T = covers_serving [OF inv]
  show ?thesis
  proof (cases ev)
    case (TcpRound i now later ev')
    with hp obtain c where sl: "slots y i = Some (Serving Tcp c)"
      and y': "y' = after_round w i Tcp (tcp_round w now later ev' c (srv y)) y"
      by (auto split: option.splits slot.splits transport.splits)
    show ?thesis unfolding y'
      by (rule grown_after_round [OF inv f tcp_round_ok [OF wf b f at(1,2) [OF sl]]
          grown_tcp_round [OF wf b f at(1) [OF sl] T at(3) [OF sl]]])
  next
    case (WsRound i now later ev')
    with hp obtain c where sl: "slots y i = Some (Serving Ws c)"
      and y': "y' = after_round w i Ws (ws_round w now later ev' c (srv y)) y"
      by (auto split: option.splits slot.splits transport.splits)
    show ?thesis unfolding y'
      by (rule grown_after_round [OF inv f ws_round_ok [OF wf b f at(1,2) [OF sl]]
          grown_ws_round [OF wf b f at(1) [OF sl] T at(3) [OF sl]]])
  qed (use hp in \<open>auto simp: fetch_add_def admit_or_drop_def end_task_def split: option.splits if_splits\<close>)
qed

section \<open>No send finds its channel closed\<close>

lemma grown_not_closed:
  "grown w T lg lg' \<Longrightarrow> \<forall>lg1 c m. c \<in> T \<longrightarrow> w_try_send w lg1 c m \<noteq> Closed \<Longrightarrow>
   \<forall>(c, m, r) \<in> set lg. r \<noteq> Closed \<Longrightarrow> \<forall>(c, m, r) \<in> set lg'. r \<noteq> Closed"
  by (induction rule: grown.induct) auto

text \<open>C15: As long as messages are dispatched one after the other, and a channel is reported closed only
  when the loop of its connection has ended, no send ever finds its channel closed: a member of a room is
  an open connection, so the pruning of members whose channel is closed never has anything to do.\<close>

theorem no_send_finds_a_closed_channel:
  assumes "served f y" and "(c, m, r) \<in> set (sends (srv y))"
  shows "r \<noteq> Closed"
proof -
  have "\<forall>(c, m, r) \<in> set (sends (srv y)). r \<noteq> Closed"
    using assms(1)
  proof (induction rule: served.induct)
    case (served_start f w)
    then show ?case by (simp add: system_init_def server_init_def)
  next
    case (served_step f y w ev y')
    note g = happens_grown [OF reachable_inv [OF served_reachable [OF served_step.hyps(1)]] served_step.hyps(2,4)]
    show ?case
      by (rule grown_not_closed [OF g _ served_step.IH]) (use served_step.hyps(3) in \<open>simp add: receivers_live_def\<close>)
  qed
  with assms(2) show ?thesis by auto
qed

theorem no_send_finds_a_closed_channel_witness:
  "\<exists>(y :: system) m r. served (map ascii_lower) y \<and> (0, m, r) \<in> set (sends (srv y)) \<and> r \<noteq> Closed"
proof -
  obtain y where run: "run_events demo_events (system_init quiet_world) = Some y"
    and s: "sends (srv y) = [(0, Joined demo_code 1 1 0 demo_settings None, Sent)]"
    using demo_reachable by blast
  have y: "served (map ascii_lower) y"
    by (rule served_run_events [OF served_start run]) (simp add: demo_events_def wire_world_def quiet_world_def)
  moreover have e: "(0, Joined demo_code 1 1 0 demo_settings None, Sent) \<in> set (sends (srv y))" by (simp add: s)
  moreover note no_send_finds_a_closed_channel [OF y e]
  ultimately show ?thesis by blast
qed

end
