(* ===== verification/Source_Tests.thy ===== *)
theory Source_Tests
  imports Handlers
begin

text \<open>
  The unit tests of the crate, translated like the rest of it, and the environments in which they pass.
\<close>

section \<open>\<open>schema/load.rs\<close>\<close>

text \<open>The loop of the benchmark with its assertion: \<open>False\<close> is a panic.\<close>

fun bench_load_settings :: "nat \<Rightarrow> world \<Rightarrow> app_cache \<Rightarrow> bool" where
  "bench_load_settings 0 w c = True"
| "bench_load_settings (Suc n) w c =
     (let (found, c') = default_room_settings_for_app w ''pong'' c
      in if min_players found = 2 then bench_load_settings n w c' else False)"

lemma bench_passes_when: "c ''pong'' \<in> {None, Some (app_fallback ''pong'')} \<Longrightarrow> bench_load_settings n w c"
  by (induction n arbitrary: c)
    (auto simp: default_room_settings_for_app_def is_builtin_app_def app_fallback_def Let_def)

text \<open>The benchmark passes with any number of iterations, whatever files there are.\<close>

theorem bench_passes: "bench_load_settings n w (cache (server_init w))"
  by (rule bench_passes_when) (simp add: server_init_def)

section \<open>\<open>server/dispatch.rs\<close>\<close>

text \<open>
  \<open>None\<close> is a panic (an \<open>unwrap\<close> of nothing, an index out of range, the \<open>panic!\<close>), \<open>Some b\<close> the value
  of the assertion.
\<close>

definition test_settings :: room_settings where
  "test_settings = default_settings\<lparr>password := Some ''supersecret'', max_players := 4\<rparr>"

definition test_password_leak_in_joined :: "world \<Rightarrow> bool option" where
  "test_password_leak_in_joined w =
     (let s0 = (server_init w)\<lparr>registry := [''pong'' \<mapsto> RoomPool_new ''pong'']\<rparr>
      in case registry s0 ''pong'' of
           None \<Rightarrow> None
         | Some pool_ref \<Rightarrow>
             (case create_room w test_settings ''ROOM1'' (pool_ref, s0) of
                (None, p, s1) \<Rightarrow> None
              | (Some (code', room), p, s1) \<Rightarrow>
                  let s2 = s1\<lparr>registry := (registry s1)(''pong'' \<mapsto> p)\<rparr>;
                      (result, session, s3) =
                        dispatch w None 0 (Hello ''pong'' code' ''hash1'' (Some ''user1'') None (Some ''supersecret'')) s2
                  in (case result of Joined _ _ _ _ shown _ # _ \<Rightarrow> Some (password shown = None) | _ \<Rightarrow> None)))"

text \<open>The unit test \<open>test_password_leak_in_joined\<close> passes in every environment that asks for no
  token: whatever the channels, hash seeds, random numbers and files are.  Where a token is
  required the test panics, since its Hello carries none.\<close>

theorem password_test_passes:
  "test_password_leak_in_joined w =
     (case w_app_secret w of None \<Rightarrow> Some True | Some secret \<Rightarrow> if secret = [] then Some True else None)"
proof -
  let ?c = "RoomCode ''ROOM1''" and ?k = "w_case_fold w ''ROOM1''"
  let ?p = "RoomPool_new ''pong''" and ?r = "Room_new w ''pong'' ?c test_settings"
  let ?p' = "?p\<lparr>rooms := [?k \<mapsto> 0]\<rparr>"
  let ?s0 = "(server_init w)\<lparr>registry := [''pong'' \<mapsto> ?p]\<rparr>"
  let ?s2 = "?s0\<lparr>heap := (heap ?s0)(0 := ?r), next_addr := 1, registry := [''pong'' \<mapsto> ?p']\<rparr>"
  let ?pw = "Some ''supersecret''" and ?d = "Some ''user1''"
  have made: "create_room w test_settings ''ROOM1'' (?p, ?s0) =
      (Some (?c, 0), ?p', ?s0\<lparr>heap := (heap ?s0)(0 := ?r), next_addr := 1\<rparr>)"
    by (simp add: create_room_def try_insert_new_room_def RoomPool_new_def code_key_def server_init_def Let_def)
  let ?s1 = "?s2\<lparr>cache := [''pong'' \<mapsto> app_fallback ''pong'']\<rparr>"
  have "is_registered_app w ''pong'' (cache ?s2) = (True, [''pong'' \<mapsto> app_fallback ''pong''])"
    by (simp add: is_registered_app_def is_builtin_app_def server_init_def)
  then have adm: "hello_admit w ''pong'' ?c ''hash1'' ?d None ?pw ?s2 =
      (if auth_ok w None then (Inr (), ?s1) else (Inl ''authentication required'', ?s2))"
    by (simp add: hello_admit_def validate_hello_def len_limits too_long_def)
  obtain s1 where s1: "s1 = ?s1" "registry s1 = [''pong'' \<mapsto> ?p']" "heap s1 0 = ?r" by simp
  have room: "hello_room w ''pong'' ?c s1 = (Inr (?c, 0), s1)"
    using s1(2) by (simp add: hello_room_def get_room_def code_key_def RoomPool_new_def)
  have "\<not> is_full ?r" "password_ok ?r ?pw"
    by (simp_all add: is_full_def password_ok_def or_empty_def Room_new_def test_settings_def default_settings_def
        hm_len_def hm_new_def)
  from join_new_room [OF this, of w ?c 0 "''hash1''" ?d "sends s1"] obtain r' where
    "join_room w ?c 0 ''hash1'' ?d ?pw (heap s1 0, sends s1) =
      (Inr (1, Joined ?c 1 1 0 (test_settings\<lparr>password := None\<rparr>) None), (r', sends s1))"
    using s1(3) by auto
  then have "\<exists>s3. dispatch w None 0 (Hello ''pong'' ?c ''hash1'' ?d None ?pw) ?s2 =
      (if auth_ok w None
       then ([Joined ?c 1 1 0 (test_settings\<lparr>password := None\<rparr>) None],
             Some \<lparr>s_app_key = ''pong'', s_room_code = ?c, s_peer_id = 1\<rparr>, s3)
       else ([Error ''authentication required''], None, s3))"
    using adm [folded s1(1)] room by (simp add: dispatch_defs handle_hello_def leave_old_def hello_join_def)
  then have "test_password_leak_in_joined w = (if auth_ok w None then Some True else None)"
    using made by (auto simp: test_password_leak_in_joined_def Let_def)
  then show ?thesis by (simp add: auth_ok_def or_empty_def split: option.split)
qed

end
