(* ===== verification/Spec2Isabelle.thy ===== *)
theory Spec2Isabelle
  imports Room_Guarantees Pool_Guarantees Interleaving Wire_Guarantees Abstraction Game_State Demo_Run
    Task_Guarantees Receivers Source_Tests
begin

text \<open>
  A verification development for the game relay server of this repository (the Rust crate
  under \<open>src/server/src\<close>).  Clients connect over TCP or WebSocket, join a room of a registered
  app with a Hello, and from then on are relayed by the server: the host of a room sets the
  authoritative game state (Move) and governs the room (Control), the others send inputs to
  the host; the server keeps the tables of rooms and peers, elects a new host when the host is
  lost, and drops rooms nobody is left in.

  \<^bold>\<open>How the parts interact.\<close>
  A connection task (\<open>server/mod.rs\<close>) reads frames, limits their rate, decodes them and passes
  the messages to \<open>dispatch\<close> (\<open>server/dispatch.rs\<close>).  A handler looks the app up in the registry of
  pools, the room up in the pool (\<open>room/pool.rs\<close>) by its case-folded code, and works on the room
  (\<open>room/room.rs\<close>) under the room's mutex.  It answers its own client by return value and the
  other clients through their bounded channels with \<open>try_send\<close>; a broadcast that finds channels closed
  removes their peers, tells the others, and hands the room over if the host was lost.  When
  a connection ends, \<open>leave_room\<close> does the same for its own peer and then asks the pool to drop the
  room if it is empty.

  \<^bold>\<open>Theories and the code they model.\<close>
  \<^item> \<open>Prelude\<close>: machine integers (\<open>u8\<close>, \<open>u32\<close>, \<open>u64\<close> as words), saturating addition, the scan of an
    integer range, decimal formatting.
  \<^item> \<open>Hash_Map\<close>: the std \<open>HashMap\<close> as an entry list in iteration order with its hash seed.
  \<^item> \<open>Messages\<close>: the wire types of \<open>protocol/messages.rs\<close> and the types of \<open>room/identity.rs\<close> and
    \<open>room/room.rs\<close> they carry; the normal form of a room code.
  \<^item> \<open>World\<close>: everything the server takes from outside its sources, as the record \<open>world\<close>.
  \<^item> \<open>Validation\<close>: \<open>server/validation.rs\<close>.  \<open>Frame\<close>: \<open>protocol/frame.rs\<close> and the hand-made frames of the
    WebSocket handler.  \<open>Load\<close>: \<open>schema/load.rs\<close>, the registered apps and their cache.
  \<^item> \<open>Room\<close>, \<open>Broadcast\<close>: \<open>room/room.rs\<close>, the room record with its operations, first those that do not
    send and then those that do.  \<open>Prune\<close>: the two pruning broadcasts of \<open>server/mod.rs\<close>.
  \<^item> \<open>Pool\<close>: \<open>room/pool.rs\<close> and the store of the whole server: registry, pools, a heap of rooms
    addressed as the shared pointers of the source are, the set of rooms whose mutex is
    held elsewhere, the log of every send with its outcome.
  \<^item> \<open>Dispatch\<close>: \<open>server/dispatch.rs\<close>, one definition per handler, and \<open>leave_room\<close> of \<open>server/mod.rs\<close>.
  \<^item> \<open>Connection\<close>: one round of \<open>handle_connection\<close> and of \<open>handle_ws_connection\<close>.
  \<^item> \<open>System\<close>: the accept loops of \<open>run\<close> and the connection tasks as a step relation, one dispatch a step.
  \<^item> \<open>Tasks\<close>: the same connection tasks at the grain of their locks.  A task has a program counter
    (\<open>pc\<close>), and a step (\<open>advance\<close>) is one access to a shared map, the acquisition of a room's mutex, or
    the work under the mutex together with its release; the steps of all tasks interleave freely.
    It keeps the readers-writer locks of the map shards too: a task that iterates over a map, or keeps a
    reference into one, holds the shard it is in (\<open>guards\<close>), and a step that inserts or removes
    (\<open>write_shard\<close>) waits until nobody reads the shard.  Requests for the statistics are tasks as well.
  \<^item> \<open>Http\<close>: the statistics of \<open>server/http.rs\<close>, the arguments of \<open>main.rs\<close> and the start of \<open>run\<close>.
  \<^item> \<open>Source_Tests\<close>: the unit tests of the crate, and when they pass.

  A handler that works under a room's mutex maps a pair of room and send log to its answer and
  such a pair, and is named \<open>_in_room\<close>; its caller finds the room, runs it and writes the room back.
  An early return with an \<open>Error\<close> message is a branch with that message.  The
  asynchronous functions that take and release locks are split where they do: \<open>hello_admit\<close>,
  \<open>hello_room\<close> and \<open>hello_join\<close> compose to \<open>handle_hello\<close>, and \<open>leave_in_room\<close> and \<open>remove_if_empty\<close> to
  \<open>leave_room\<close>.

  \<^bold>\<open>Parameters.\<close>
  The record \<open>world\<close> has a field for each thing the server cannot decide: the outcome of a
  \<open>try_send\<close> (sent, full, closed), which may depend on the whole log; hash seeds; random numbers;
  the Unicode folding of room codes; the iteration order of the concurrent maps; environment
  variables and files; the JSON parser; \<open>bincode\<close>.  Every step takes a record of its own, so
  nothing is assumed to stay the same from one step to the next, but for the folding.
  Predicates such as \<open>unicase_ok\<close>, \<open>iter_ok\<close> and \<open>gen_range_ok\<close> state documented behaviour and are
  hypotheses only of the theorems that need them; \<open>quiet_world\<close> satisfies them.

  \<^bold>\<open>What the lemmas show.\<close>
  \<^item> Locales state what operations share.  \<open>map_api\<close> (\<open>Hash_Map\<close>) is the contract of the hash table;
    \<open>peer_removal\<close> and \<open>pruning_broadcast\<close> (\<open>Broadcast\<close>) are those of the removal loops and of the
    broadcasts; \<open>room_operation\<close> (\<open>Handlers\<close>) says that an operation under the mutex keeps the
    room well-formed, adds nobody and shows no password; \<open>host_operation\<close> (\<open>Hosting\<close>) extends it
    by keeping the host an accepted client, and \<open>sending_operation\<close> (\<open>Channels\<close>) by sending to members of
    the room only.  Each is interpreted on the definitions that
    model the code; eviction is an instance of \<open>room_operation\<close> only, since a host may evict itself.
  \<^item> \<open>Handlers\<close> and \<open>Hosting\<close> show the effect of each handler on one room, \<open>Store\<close> lifts it to the store
    (\<open>server_wf\<close>, \<open>store_step\<close>), \<open>Membership\<close> relates members to sessions (\<open>backed\<close>) and shows that \<open>dispatch\<close>
    keeps that, \<open>System\<close> makes it an invariant of every reachable state (\<open>sys_inv\<close>).
  \<^item> \<open>Abstraction\<close> states the specification of membership (\<open>spec_step\<close>) and that every step of the
    server refines it; \<open>Game_State\<close> follows the state blob through all operations.
  \<^item> \<open>Task_Invariant\<close> carries membership (\<open>tasks_inv\<close>) and its specification through every lock-grain step;
    \<open>Task_Progress\<close> shows that a mutex is held by exactly one task, that the locks are taken in one order
    (the shards of the registry, the shards of the pools, the rooms), so that chains of waiting tasks end at
    one that can go on, and that the work ends; \<open>Task_Alone\<close> shows that a task nobody interrupts computes \<open>dispatch\<close>
    (a listing apart, which visits the rooms shard by shard), which ties the two grains together;
    \<open>Task_Runs\<close> holds concrete runs with unlucky interleavings, \<open>Task_Guarantees\<close> the properties.
  \<^item> \<open>Channels\<close> shows that every send of a step goes to a connection that is being served, \<open>Receivers\<close> that
    therefore no channel is found closed as long as messages are dispatched one after the other.
  \<^item> \<open>Room_Guarantees\<close>, \<open>Pool_Guarantees\<close>, \<open>Interleaving\<close>, \<open>Wire_Guarantees\<close> and this theory hold the
    properties; \<open>Scenario\<close> and \<open>Demo_Run\<close> the concrete rooms, and a concrete run of the server, at which
    the witnesses apply them.

  Some theorems state what a reader may not expect.  A Hello can join a room that was dropped
  while it waited (\<open>hello_can_join_a_dropped_room\<close>), and an empty room can stay registered for good because
  a Hello that is then refused held its mutex (\<open>refused_join_leaks_an_empty_room\<close>);
  a host that evicts itself keeps control (\<open>self_eviction_keeps_control\<close>), an evicted client keeps
  reading (\<open>evicted_peer_still_reads_state\<close>), waiting peers can be stranded without a host
  (\<open>host_leaves_pending_stranded\<close>); malformed WebSocket messages escape the rate limit
  (\<open>malformed_ws_frames_unlimited\<close>), and an app key can name a file outside the app directory
  (\<open>absolute_app_key_escapes\<close>).

  \<^bold>\<open>Bounds and termination.\<close>
  No definition uses fuel.  The pruning loop is a total function: a round that loses peers makes the
  client table smaller, so twice the size of the table plus the number of losses to report
  decreases (\<open>prune_loop\<close>).  The scans for a free peer id and a free side end with their integer
  range, the code generator after its twenty draws, as in the source.  The tasks end their work in every
  interleaving: a step of a task lowers its rank (\<open>rank\<close>), the steps left on its way through the
  message, and the multiset of all ranks decreases (\<open>work_left\<close>).  Peer ids, sides, player
  counts and the connection counter are words of the width the source gives them; lengths are
  natural numbers, as no length in the program comes near the range of \<open>usize\<close>.

  \<^bold>\<open>Granularity.\<close>
  In \<open>System\<close> the dispatch of one message is one step and rounds of different connections interleave
  in any order; the theorems about \<open>System\<close> and about \<open>dispatch\<close> itself are of dispatches that no other task
  interrupts.  In \<open>Tasks\<close> a dispatch is many steps; a lookup, an insertion or a removal in one shard is
  atomic there, and so is the work under a room's mutex, which no other task can observe.  Rate limiting,
  decoding and the accept loops are steps of \<open>System\<close> only: in \<open>Tasks\<close> a connection opens, receives any
  message, and hangs up when it likes.  \<open>Interleaving\<close> states the effect of a mutex held elsewhere on single
  operations (\<open>locked\<close>).

  \<^bold>\<open>Not modelled.\<close>
  Socket, HTTP and file input and output; the scheduler; the end of the process by ctrl-c; the internals of
  the concurrent maps beyond the locks of their shards (which shard a key is in is a parameter, and the
  number of entries is read at once), the fairness of locks and readers that queue behind a waiting writer;
  the queues of the channels; the internals of \<open>bincode\<close>, of the web framework and of the JSON parser; the debug macro
  of \<open>debug.rs\<close>; the clients in C++, C# and GML.
\<close>

section \<open>Reachable states\<close>

text \<open>C16: In every reachable state, each member of each registered room is an open connection whose
  own session names exactly that app, that room and that peer id: no departed or moved
  connection is left behind in any room.\<close>

theorem members_are_backed:
  assumes "reachable f y" and "registered (srv y) a k ad" and "member_info (heap (srv y) ad) pid = Some info"
  shows "\<exists>tr c ss. slots y (tx info) = Some (Serving tr c) \<and> c_tx c = tx info \<and> c_session c = Some ss \<and>
    s_app_key ss = a \<and> f (code_str (s_room_code ss)) = k \<and> s_peer_id ss = pid"
proof -
  have inv: "sys_inv f y" by (rule reachable_inv [OF assms(1)])
  then have "session_for f (sess_of y (tx info)) a k pid"
    using assms(2,3) by (auto simp: sys_inv_def intro: backedD)
  then obtain ss where ss: "sess_of y (tx info) = Some ss" "s_app_key ss = a"
    "f (code_str (s_room_code ss)) = k" "s_peer_id ss = pid" by (auto simp: session_for_def)
  then obtain tr c where "slots y (tx info) = Some (Serving tr c)" "c_session c = Some ss"
    by (auto simp: sess_of_def split: option.splits slot.splits)
  moreover from this inv have "c_tx c = tx info" by (simp add: sys_inv_def slots_ok_def)
  ultimately show ?thesis using ss by blast
qed

theorem members_are_backed_witness:
  "\<exists>(y :: system) tr c ss. slots y 0 = Some (Serving tr c) \<and> c_session c = Some ss \<and> s_app_key ss = ''solo'' \<and> s_peer_id ss = 1"
proof -
  obtain y c where y: "reachable (map ascii_lower) y" "registered (srv y) ''solo'' ''abcdef'' 0"
    "member_info (heap (srv y) 0) = [1 \<mapsto> demo_info0]" using demo_reachable by blast
  then have "member_info (heap (srv y) 0) 1 = Some demo_info0" by simp
  from members_are_backed [OF y(1,2) this] show ?thesis
    by (elim exE conjE, intro exI conjI) (simp_all add: demo_info0_def)
qed

text \<open>C17: Every step of the running server is a step of the abstract membership specification: it
  frees places, or takes one connection out of every place and puts it into a free one.\<close>

theorem server_refines_membership_spec:
  assumes "reachable f y" and "sys_step f y y'"
  shows "spec_step (abs_members (srv y)) (abs_members (srv y'))"
  using assms(2)
proof (cases rule: sys_step.cases)
  case (stepI w ev)
  with happens_spec [OF reachable_inv [OF assms(1)]] show ?thesis by blast
qed

theorem server_refines_membership_spec_witness:
  "spec_step (abs_members (srv (system_init quiet_world))) (abs_members (srv (fetch_add Tcp (system_init quiet_world))))"
proof (rule server_refines_membership_spec)
  show "reachable (map ascii_lower) (system_init quiet_world)" by (rule reachable.start)
  show "sys_step (map ascii_lower) (system_init quiet_world) (fetch_add Tcp (system_init quiet_world))"
    by (rule sys_step.stepI [of wire_world _ "Accept Tcp"]) (simp_all add: system_init_def)
qed

text \<open>In every reachable state a connection is a member of at most one room, under one peer id.\<close>

theorem one_room_per_connection:
  assumes "reachable f y"
    and "registered (srv y) a k ad" and "member_info (heap (srv y) ad) pid = Some info"
    and "registered (srv y) a' k' ad'" and "member_info (heap (srv y) ad') pid' = Some info'"
    and "tx info = tx info'"
  shows "a = a' \<and> k = k' \<and> ad = ad' \<and> pid = pid'"
proof -
  have at: "abs_members (srv y) (a, k, pid) = Some (tx info)" "abs_members (srv y) (a', k', pid') = Some (tx info)"
    using assms(2-6) by (auto simp: abs_members_Some member_at_def)
  have "(a, k, pid) = (a', k', pid')"
    by (rule inj_onD [OF reachable_inj [OF assms(1)]]) (use at in auto)
  with assms(2,4) show ?thesis by (auto simp: registered_def)
qed

theorem one_room_per_connection_witness:
  "\<exists>y :: system. registered (srv y) ''solo'' ''abcdef'' 0 \<and> (\<forall>pid info. member_info (heap (srv y) 0) pid = Some info \<and> tx info = 0 \<longrightarrow> 1 = pid)"
proof -
  obtain y c where y: "reachable (map ascii_lower) y" "registered (srv y) ''solo'' ''abcdef'' 0"
    "member_info (heap (srv y) 0) = [1 \<mapsto> demo_info0]" using demo_reachable by blast
  have m: "member_info (heap (srv y) 0) 1 = Some demo_info0" "tx demo_info0 = 0"
    using y(3) by (simp_all add: demo_info0_def)
  have "1 = pid" if "member_info (heap (srv y) 0) pid = Some info" "tx info = 0" for pid info
    using one_room_per_connection [OF y(1,2) m(1) y(2) that(1)] m(2) that(2) by simp
  with y(2) show ?thesis by blast
qed

text \<open>C8: In every reachable state no message that was ever sent or tried shows a room password.\<close>

theorem no_password_is_sent:
  assumes "reachable f y" and "m \<in> log_msgs (sends (srv y))"
  shows "\<forall>st \<in> set (shown_settings m). password st = None"
  using reachable_inv [OF assms(1)] assms(2) by (auto simp: sys_inv_def log_clean_def no_password_def)

theorem no_password_is_sent_witness:
  "\<exists>y. reachable (map ascii_lower) y \<and> (\<exists>m \<in> log_msgs (sends (srv y)). \<exists>st. shown_settings m = [st] \<and> password st = None)"
proof -
  obtain y where y: "reachable (map ascii_lower) y"
    "sends (srv y) = [(0, Joined demo_code 1 1 0 demo_settings None, Sent)]" using demo_reachable by blast
  then have m: "Joined demo_code 1 1 0 demo_settings None \<in> log_msgs (sends (srv y))" by simp
  from no_password_is_sent [OF y(1) m] have "password demo_settings = None" by simp
  with m y(1) show ?thesis by (intro exI [of _ y] conjI bexI [OF _ m]) auto
qed

text \<open>C22: In every reachable state every registered room is well-formed and lives under its own app
  and the case-folded form of its own code, and no two entries lead to the same room.\<close>

theorem registry_is_consistent:
  assumes "reachable f y" and "registered (srv y) a k ad"
  shows "room_wf (heap (srv y) ad) \<and> app_key (heap (srv y) ad) = a \<and>
    f (code_str (code (heap (srv y) ad))) = k \<and> ad < next_addr (srv y) \<and>
    (\<forall>a' k'. registered (srv y) a' k' ad \<longrightarrow> a' = a \<and> k' = k)"
proof -
  have wf: "server_wf f (srv y)" using reachable_inv [OF assms(1)] by (simp add: sys_inv_def)
  from server_wfD(1) [OF wf] server_wfD(3) [OF wf assms(2)] registered_unique [OF wf assms(2)]
  show ?thesis by blast
qed

theorem registry_is_consistent_witness:
  "\<exists>y :: system. app_key (heap (srv y) 0) = ''solo'' \<and> room_wf (heap (srv y) 0)"
proof -
  obtain y c where "reachable (map ascii_lower) y" "registered (srv y) ''solo'' ''abcdef'' 0" using demo_reachable by blast
  from registry_is_consistent [OF this] show ?thesis by blast
qed

text \<open>C19: At no time are more than 110000 connection tasks alive, over both listeners together,
  however their increments, checks and decrements of the shared counter interleave; and the
  counter never wraps.\<close>

theorem connections_are_bounded:
  assumes "reachable f y"
  shows "finite (dom (slots y)) \<and> card (dom (slots y)) \<le> 110000 \<and>
    card (dom (slots y)) \<le> unat (conn_count y) \<and> unat (conn_count y) \<le> card (dom (slots y)) + 2"
proof -
  have "count_inv y" by (rule reachable_count [OF assms])
  then show ?thesis
    using holds_le [of y Tcp] holds_le [of y Ws]
    by (auto simp: count_inv_def live_def MAX_CONNECTIONS_def)
qed

theorem connections_are_bounded_witness:
  "\<exists>y. reachable (map ascii_lower) y \<and> card (dom (slots y)) \<le> 110000 \<and> slots y 0 \<noteq> None"
proof -
  obtain y c where "reachable (map ascii_lower) y" "slots y 0 = Some (Serving Tcp c)" using demo_reachable by blast
  with connections_are_bounded [OF this(1)] show ?thesis by (intro exI [of _ y]) simp
qed

section \<open>Sessions\<close>

lemma hello_admit_Inr:
  "hello_admit w a rc h d t pw s = (Inr u, s') \<Longrightarrow>
   hello_bounds a (length (code_str rc)) h d t pw \<and> auth_ok w t \<and> fst (is_registered_app w a (cache s))"
  by (auto simp: hello_admit_def Let_def validate_hello_iff split: sum.splits if_splits prod.splits)

lemma cache_leave_old: "cache (leave_old w session s) = cache s"
  by (simp add: leave_old_def leave_room_def with_room_def drop_if_empty_def Let_def
      split: option.split prod.split)

lemma hello_room_same_code:
  "hello_room w a rc s = (Inr (c, ad), s') \<Longrightarrow> code_str rc \<noteq> [] \<Longrightarrow> c = rc"
  by (auto simp: hello_room_def Let_def split: option.splits)

text \<open>C6: A Hello that is dispatched without interruption (as one step, no other task in between) is answered
  by exactly one message.  Either it is an error and the connection has
  no session, or it is \<open>Joined\<close>: then the Hello respected every length bound, carried the
  required token, its app is registered, and the connection's new session names a registered
  room of which it is a member on its own channel, under the hash it gave; a room code it
  named is the room it joined.\<close>

theorem hello_outcome:
  assumes "reachable f y" and "slots y i = Some (Serving tr c0)" and "w_case_fold w = f"
    and "dispatch w (c_session c0) i (Hello a rc h d t pw) (srv y) = (out, so, s')"
  shows "((\<exists>e. out = [Error e]) \<and> so = None) \<or>
    (hello_bounds a (length (code_str rc)) h d t pw \<and> auth_ok w t \<and>
     fst (is_registered_app w a (cache (srv y))) \<and>
     (\<exists>c pid hp sd st b ad info. out = [Joined c pid hp sd st b] \<and>
        so = Some \<lparr>s_app_key = a, s_room_code = c, s_peer_id = pid\<rparr> \<and> (code_str rc \<noteq> [] \<longrightarrow> c = rc) \<and>
        registered s' a (f (code_str c)) ad \<and> member_info (heap s' ad) pid = Some info \<and>
        tx info = i \<and> client_hash info = ClientHash h))"
proof -
  let ?s = "srv y" and ?sess = "sess_of y"
  have inv: "server_wf f ?s" "backed f ?sess ?s" using reachable_inv [OF assms(1)] by (simp_all add: sys_inv_def)
  have "?sess i = c_session c0" using assms(2) by (simp add: sess_of_def)
  with assms(4) have run: "handle_hello w (?sess i) i a rc h d t pw ?s = (out, so, s')" by (simp add: dispatch_defs)
  let ?s0 = "leave_old w (?sess i) ?s"
  note lo = backed_leave_old [OF inv(2,1) assms(3), of i]
  obtain r1 s1 where ad: "hello_admit w a rc h d t pw ?s0 = (r1, s1)" by fastforce
  note wf0 = store_step_wf [OF inv(1) lo(2)]
  note st1 = hello_admit_step [OF wf0 ad]
  obtain r2 s2 where hr: "hello_room w a rc s1 = (r2, s2)" by fastforce
  note h2 = hello_room_step [OF store_step_wf [OF wf0 st1] backed_store_step [OF lo(1) st1] assms(3) hr]
  show ?thesis
  proof (cases "\<exists>u c ad'. r1 = Inr u \<and> r2 = Inr (c, ad')")
    case False
    with run ad hr have "(\<exists>e. out = [Error e]) \<and> so = None"
      by (auto simp: handle_hello_def Let_def split: sum.splits)
    then show ?thesis ..
  next
    case True
    then obtain c ad' where r: "r1 = Inr ()" "r2 = Inr (c, ad')" by auto
    with run ad hr have j: "hello_join w a c ad' i h d pw s2 = (out, so, s')"
      by (simp add: handle_hello_def Let_def)
    from h2 r have wf2: "server_wf f s2" and reg: "registered s2 a (f (code_str c)) ad'" by auto
    obtain res r' lg where jr: "join_room w c i h d pw (heap s2 ad', sends s2) = (res, (r', lg))" by (metis surj_pair)
    have s': "s' = s2\<lparr>heap := (heap s2)(ad' := r'), sends := lg\<rparr>"
      using j jr by (auto simp: hello_join_def Let_def split: sum.splits)
    show ?thesis
    proof (cases res)
      case (Inl e)
      with j jr show ?thesis by (auto simp: hello_join_def)
    next
      case (Inr x)
      obtain pid joined where x: "res = Inr (pid, joined)" using Inr by (cases x) auto
      note ji = join_room_Inr [OF server_wfD(1) [OF wf2] jr [unfolded x]]
      from j jr x have o: "out = [joined]" "so = Some \<lparr>s_app_key = a, s_room_code = c, s_peer_id = pid\<rparr>"
        by (auto simp: hello_join_def)
      have "member_info (heap s' ad') pid = Some (newcomer (heap s2 ad') i h d)"
        using ji(1) by (simp add: s' admitted_def)
      moreover have "registered s' a (f (code_str c)) ad'" using reg by (simp add: s' registered_def)
      moreover have "code_str rc \<noteq> [] \<longrightarrow> c = rc" using hello_room_same_code hr r(2) by blast
      moreover note hello_admit_Inr [OF ad [unfolded r(1)], unfolded cache_leave_old]
      moreover have "tx (newcomer (heap s2 ad') i h d) = i" "client_hash (newcomer (heap s2 ad') i h d) = ClientHash h"
        by (simp_all add: newcomer_def)
      ultimately show ?thesis using o ji(3) by blast
    qed
  qed
qed

theorem hello_outcome_witness:
  "hello_bounds ''solo'' 0 ''h'' None None None"
proof -
  obtain s' where d: "dispatch wire_world None 0 (Hello ''solo'' (RoomCode []) ''h'' None None None) (server_init quiet_world) =
     ([Joined demo_code 1 1 0 demo_settings None],
      Some \<lparr>s_app_key = ''solo'', s_room_code = demo_code, s_peer_id = 1\<rparr>, s')"
    using demo_hello by blast
  let ?y = "system_init quiet_world\<lparr>conn_count := 1, slots := [0 \<mapsto> Serving Tcp (connection_new 0 0)], next_conn := 1\<rparr>"
  have "run_events [(wire_world, Accept Tcp), (wire_world, Admit Tcp 0)] (system_init quiet_world) = Some ?y"
    by (simp add: system_init_def fetch_add_def admit_or_drop_def MAX_CONNECTIONS_def new_slot_def)
  from reachable_run_events [OF reachable.start this] have re: "reachable (map ascii_lower) ?y" by simp
  have sl: "slots ?y 0 = Some (Serving Tcp (connection_new 0 0))" by simp
  have "dispatch wire_world (c_session (connection_new 0 0)) 0 (Hello ''solo'' (RoomCode []) ''h'' None None None) (srv ?y) =
     ([Joined demo_code 1 1 0 demo_settings None],
      Some \<lparr>s_app_key = ''solo'', s_room_code = demo_code, s_peer_id = 1\<rparr>, s')"
    using d by (simp add: system_init_def)
  from hello_outcome [OF re sl _ this] show ?thesis by simp
qed

text \<open>C7: Dispatching a message changes the game state of an existing room only if the message is a
  move of a session of that room whose peer is the room's host; the move is then accepted and
  its blob is the new state.\<close>

theorem state_changes_only_by_host_move:
  assumes "reachable f y" and "slots y i = Some (Serving tr c0)" and "w_case_fold w = f"
    and "dispatch w (c_session c0) i msg (srv y) = (out, so, s')"
    and "ad < next_addr (srv y)" and "state (heap s' ad) \<noteq> state (heap (srv y) ad)"
  shows "\<exists>blob ss. msg = Move blob \<and> c_session c0 = Some ss \<and> so = Some ss \<and> out = [MoveAccepted] \<and>
    lookup_room w (srv y) (s_app_key ss) (s_room_code ss) = Some ad \<and>
    host_peer_id (heap (srv y) ad) = s_peer_id ss \<and> state (heap s' ad) = blob"
proof -
  let ?s = "srv y" and ?sess = "sess_of y"
  have wf: "server_wf f ?s" and b: "backed f ?sess ?s" using reachable_inv [OF assms(1)] by (simp_all add: sys_inv_def)
  have se: "?sess i = c_session c0" using assms(2) by (simp add: sess_of_def)
  have no: "\<not> state_kept ?s s'" using assms(5,6) by (auto simp: state_kept_def)
  have inroom: "state_kept ?s s'"
    if "in_session_room w ss act ?s = (out, s')"
      "\<And>r lg r' lg'. room_wf r \<Longrightarrow> act (r, lg) = (out, (r', lg')) \<Longrightarrow> state r' = state r" for ss act
    using state_kept_in_session_room [OF that(1) _ wf] that(2) by blast
  show ?thesis
  proof (cases msg)
    case (Hello a rc h d t pw)
    with assms(4) se have "handle_hello w (?sess i) i a rc h d t pw ?s = (out, so, s')" by (simp add: dispatch_defs)
    with state_kept_hello [OF wf b assms(3)] no show ?thesis by blast
  next
    case (Move blob)
    show ?thesis
    proof (cases "c_session c0")
      case None
      with assms(4) Move no show ?thesis by (simp add: dispatch_defs with_session_def)
    next
      case (Some ss)
      with assms(4) Move have "in_session_room w ss (move_in_room w (s_peer_id ss) blob) ?s = (out, s')" "so = Some ss"
        by (auto simp: dispatch_defs with_session_def split: prod.splits)
      with move_in_session_room [OF wf _ assms(6)] Some Move show ?thesis by blast
    qed
  next
    case (Input blob)
    have "state r' = state r" if "input_in_room w pid blob (r, lg) = (out, (r', lg'))" for pid r lg r' lg'
      using that by (auto simp: input_in_room_def split: if_splits option.splits)
    then have "in_session_room w ss (input_in_room w pid blob) ?s \<noteq> (out, s')" for ss pid
      using inroom no by blast
    with assms(4) Input no show ?thesis
      by (cases "c_session c0") (auto simp: dispatch_defs with_session_def split: prod.splits)
  next
    case RequestState
    have "state r' = state r" if "state_in_room (r, lg) = (out, (r', lg'))" for r lg r' lg'
      using that by (simp add: state_in_room_def)
    then have "in_session_room w ss state_in_room ?s \<noteq> (out, s')" for ss using inroom no by blast
    with assms(4) RequestState no show ?thesis
      by (cases "c_session c0") (auto simp: dispatch_defs with_session_def split: prod.splits)
  next
    case (RoomControl rc)
    show ?thesis
    proof (cases "c_session c0")
      case None
      with assms(4) RoomControl no show ?thesis by (simp add: dispatch_defs with_session_def)
    next
      case (Some ss)
      with assms(4) RoomControl have "handle_control w ss rc ?s = (out, so, s')"
        by (simp add: dispatch_defs with_session_def)
      then have "s' = ?s \<or> s' = leave_room w (s_app_key ss) (s_room_code ss) (s_peer_id ss) ?s \<or>
          in_session_room w ss (control_in_room w (s_peer_id ss) rc) ?s = (out, s')"
        by (cases rc) (auto simp: handle_control_def split: prod.splits)
      moreover have "in_session_room w ss (control_in_room w (s_peer_id ss) rc) ?s \<noteq> (out, s')"
        using inroom control_in_room_state no by blast
      ultimately have False using no state_kept_leave [OF wf] by auto
      then show ?thesis ..
    qed
  next
    case Ping
    with assms(4) no show ?thesis by (simp add: dispatch_defs)
  next
    case (ListRooms a)
    with assms(4) have "heap s' = heap ?s" "next_addr s' = next_addr ?s"
      by (auto simp: dispatch_defs handle_list_rooms_def Let_def split: prod.splits if_splits option.splits)
    with no state_kept_same show ?thesis by blast
  qed
qed

theorem state_changes_only_by_host_move_witness:
  "\<exists>y (s' :: server). reachable (map ascii_lower) y \<and> state (heap (srv y) 0) = [] \<and> state (heap s' 0) = [5] \<and>
     host_peer_id (heap (srv y) 0) = 1"
proof -
  obtain y c where y: "reachable (map ascii_lower) y" "registered (srv y) ''solo'' ''abcdef'' 0"
    "slots y 0 = Some (Serving Tcp c)"
    "c_session c = Some \<lparr>s_app_key = ''solo'', s_room_code = demo_code, s_peer_id = 1\<rparr>"
    "host_peer_id (heap (srv y) 0) = 1" "settings (heap (srv y) 0) = demo_settings"
    "state (heap (srv y) 0) = []" "next_addr (srv y) = 1"
    using demo_reachable by blast
  let ?s = "srv y" and ?ss = "\<lparr>s_app_key = ''solo'', s_room_code = demo_code, s_peer_id = 1\<rparr>"
  have wf: "server_wf (map ascii_lower) ?s" using reachable_inv [OF y(1)] by (simp add: sys_inv_def)
  have look: "lookup_room wire_world ?s ''solo'' demo_code = Some 0"
    using lookup_registered [of wire_world "map ascii_lower" ?s "''solo''" demo_code 0] y(2) by (simp add: demo_code_key)
  obtain r lg where b: "broadcast_state_update_and_prune wire_world (heap ?s 0\<lparr>state := [5]\<rparr>, sends ?s) = (r, lg)" by fastforce
  have "room_wf (heap ?s 0\<lparr>state := [5]\<rparr>)" using server_wfD(1) [OF wf] by simp
  from settled_state(1) [OF broadcast_state_update_and_prune_settled [OF this b]] have st: "state r = [5]" by simp
  let ?s' = "?s\<lparr>heap := (heap ?s)(0 := r), sends := lg\<rparr>"
  have "move_in_room wire_world 1 [5] (heap ?s 0, sends ?s) = ([MoveAccepted], (r, lg))"
    using y(5,6) b by (simp add: move_in_room_def demo_settings_def default_settings_def)
  then have d: "dispatch wire_world (c_session c) 0 (Move [5]) ?s = ([MoveAccepted], Some ?ss, ?s')"
    using y(4) look by (simp add: dispatch_defs with_session_def in_session_room_def)
  have "state (heap ?s' 0) \<noteq> state (heap ?s 0)" using st y(7) by simp
  from state_changes_only_by_host_move [OF y(1,3) _ d _ this] y(8) have
    "state (heap ?s' 0) = [5]" "host_peer_id (heap ?s 0) = 1" using y(4) by auto
  with y(1,7) show ?thesis by blast
qed

text \<open>C28: A session outlives its peer's eviction: after the host has kicked or banned a client, that
  client's session still obtains the room's game state on request.\<close>

theorem evicted_peer_still_reads_state:
  assumes "server_wf f s" and "w_case_fold w = f" and "w_case_fold w' = f"
    and "lookup_room w s (s_app_key hs) (s_room_code hs) = Some ad" and "host_peer_id (heap s ad) = s_peer_id hs"
    and "rc = Kick pid \<or> rc = Ban pid" and "state (heap s ad) \<noteq> []"
    and "dispatch w (Some hs) i (RoomControl rc) s = (out, so, s')"
    and "s_app_key ss = s_app_key hs" and "s_room_code ss = s_room_code hs" and "s_peer_id ss = pid"
  shows "pid \<notin> client_ids (heap s' ad) \<and>
    dispatch w' (Some ss) j RequestState s' = ([StateUpdate (state (heap s ad))], Some ss, s')"
proof -
  obtain o' r lg where c: "control_in_room w (s_peer_id hs) rc (heap s ad, sends s) = (o', (r, lg))"
    by (metis surj_pair)
  have s': "s' = s\<lparr>heap := (heap s)(ad := r), sends := lg\<rparr>"
    using assms(4,6,8) c
    by (elim disjE) (auto simp: dispatch_defs with_session_def handle_control_def in_session_room_def)
  note wf = server_wfD(1) [OF assms(1), of ad]
  have gone: "pid \<notin> client_ids r" using control_evict [OF wf assms(5,6) c] by blast
  have st: "state r = state (heap s ad)" by (rule control_in_room_state [OF wf c])
  have "lookup_room w' s' (s_app_key ss) (s_room_code ss) = Some ad"
    using assms(2-4,9,10) lookup_room_case_fold [of w' w]
    by (simp add: s' lookup_room_def)
  then show ?thesis
    using gone st assms(7)
    by (simp add: s' dispatch_defs with_session_def in_session_room_def state_in_room_def)
qed

theorem evicted_peer_still_reads_state_witness:
  "\<exists>s'. 1 \<notin> client_ids (heap s' 0) \<and> fst (dispatch quiet_world
     (Some \<lparr>s_app_key = ''pong'', s_room_code = RoomCode ''ABC'', s_peer_id = 1\<rparr>) 7 RequestState s') = [StateUpdate [7]]"
proof -
  let ?s = "lonely_server {}" and ?hs = "\<lparr>s_app_key = ''pong'', s_room_code = RoomCode ''ABC'', s_peer_id = 1\<rparr>"
  have key: "w_case_fold quiet_world = map ascii_lower" "map ascii_lower ''ABC'' = ''abc''"
    by (simp add: quiet_world_def) code_simp
  have "server_wf (map ascii_lower) ?s"
    using key(2)
    by (auto simp: server_wf_def lonely_server_def registered_def cache_plain_def server_init_def lonely_room_def
        split: if_splits)
      (simp add: lonely_room_def [symmetric])
  moreover obtain out so s' where d: "dispatch quiet_world (Some ?hs) 5 (RoomControl (Kick 1)) ?s = (out, so, s')"
    by (metis surj_pair)
  ultimately show ?thesis
    using evicted_peer_still_reads_state [of "map ascii_lower" ?s quiet_world quiet_world ?hs 0 "Kick 1" 1 5 out so s' ?hs 7]
      key(1) by (intro exI [of _ s']) (simp add: lonely_room_def)
qed

end
